theory Spec2Isabelle
  imports Main "HOL-Library.Sublist"
begin

section \<open>Python strings and the regular expressions of the two commands\<close>

text \<open>
  Both modules are Python 3 (\<^verbatim>\<open>translate.py\<close> uses f-strings), so a text is a
  \<^verbatim>\<open>str\<close>, a sequence of code points, and the patterns are Unicode patterns.
  A \<^typ>\<open>char\<close> stands for the code point of its value, so the model covers the texts
  whose code points are below 256. The three character classes below are
  Python's on that range: \<^verbatim>\<open>\d\<close> is a decimal digit, \<^verbatim>\<open>\w\<close> is
  \<^verbatim>\<open>str.isalnum\<close> or the underscore, and \<^verbatim>\<open>str.strip()\<close> removes what
  \<^verbatim>\<open>str.isspace\<close> accepts.
\<close>

definition cp :: "char \<Rightarrow> nat" where
  "cp c = of_char c"

definition is_digit :: "char \<Rightarrow> bool" where
  "is_digit c = (48 \<le> cp c \<and> cp c \<le> 57)"

definition is_word :: "char \<Rightarrow> bool" where
  "is_word c =
     (let n = cp c in
        (48 \<le> n \<and> n \<le> 57) \<or> (65 \<le> n \<and> n \<le> 90) \<or> n = 95 \<or> (97 \<le> n \<and> n \<le> 122)
        \<or> n = 170 \<or> n = 178 \<or> n = 179 \<or> n = 181 \<or> n = 185 \<or> n = 186
        \<or> (188 \<le> n \<and> n \<le> 190) \<or> (192 \<le> n \<and> n \<le> 214)
        \<or> (216 \<le> n \<and> n \<le> 246) \<or> (248 \<le> n \<and> n \<le> 255))"

definition is_space :: "char \<Rightarrow> bool" where
  "is_space c =
     (let n = cp c in (9 \<le> n \<and> n \<le> 13) \<or> (28 \<le> n \<and> n \<le> 32) \<or> n = 133 \<or> n = 160)"

text \<open>\<^verbatim>\<open>str.strip()\<close>: leading and trailing whitespace removed.\<close>

definition strip :: "string \<Rightarrow> string" where
  "strip s = rev (dropWhile is_space (rev (dropWhile is_space s)))"

text \<open>\<^verbatim>\<open>str.replace(' ', '_')\<close>.\<close>

definition replace_space :: "string \<Rightarrow> string" where
  "replace_space s = map (\<lambda>c. if c = CHR '' '' then CHR ''_'' else c) s"

text \<open>
  \<^verbatim>\<open>non_alphanum = re.compile('[^\w_ ]+')\<close>: a character of the class is one that is
  neither a word character nor the underscore nor the space. \<^verbatim>\<open>non_alphanum.sub('', term)\<close>
  deletes every maximal run of class characters, that is every class character;
  \<^verbatim>\<open>non_alphanum.match(term)\<close> succeeds when the term starts with one.
\<close>

definition non_alphanum_char :: "char \<Rightarrow> bool" where
  "non_alphanum_char c = (\<not> (is_word c \<or> c = CHR ''_'' \<or> c = CHR '' ''))"

definition non_alphanum_sub :: "string \<Rightarrow> string" where
  "non_alphanum_sub term = filter (\<lambda>c. \<not> non_alphanum_char c) term"

definition non_alphanum_match :: "string \<Rightarrow> bool" where
  "non_alphanum_match term = (case term of [] \<Rightarrow> False | c # _ \<Rightarrow> non_alphanum_char c)"

text \<open>
  \<^verbatim>\<open>OrderedDict.fromkeys(terms)\<close>: the keys are inserted one after the other, and a
  key that is already present keeps its place. The list of an ordered dictionary is the
  list of its keys in insertion order.
\<close>

definition fromkeys :: "'a list \<Rightarrow> 'a list" where
  "fromkeys ks = foldl (\<lambda>d k. if k \<in> set d then d else d @ [k]) [] ks"

section \<open>The term filter\<close>

text \<open>
  \<^verbatim>\<open>Danbooru.filter_terms\<close>, lines 105 to 116 of \<^verbatim>\<open>danbooru.py\<close>: three maps, one
  filter and the ordered dictionary.
\<close>

definition filter_terms :: "string list \<Rightarrow> string list" where
  "filter_terms terms =
     (let terms = map (\<lambda>term. non_alphanum_sub term) terms;
          terms = map (\<lambda>term. strip term) terms;
          terms = map (\<lambda>term. replace_space term) terms;
          terms = filter (\<lambda>term. \<not> non_alphanum_match term \<and> term \<noteq> []) terms
      in fromkeys terms)"

section \<open>The option extractor\<close>

text \<open>
  \<^verbatim>\<open>type_\<close> is Python's \<^verbatim>\<open>str\<close>, \<^verbatim>\<open>int\<close> or \<^verbatim>\<open>None\<close>; the option's value is
  a string or an integer, and the second component of the result is \<^verbatim>\<open>None\<close> when
  nothing matched. The exceptions of the function are those of \<^verbatim>\<open>re.compile\<close> on a
  pattern that is no regular expression, of \<^verbatim>\<open>re.findall(...)[0]\<close> on an empty list and
  of \<^verbatim>\<open>re.findall\<close> on a tuple. \<open>NotCovered\<close> is no exception of Python: it stands for
  the names whose pattern this theory does not read, and no statement below is about
  them.
\<close>

datatype py_type = PyStr | PyInt

datatype py_value = StrValue string | IntValue int

datatype py_error = IndexError | TypeError | ReError | NotCovered

text \<open>
  The pattern is \<^verbatim>\<open>'{name}[ =:]+{type}+'\<close> under \<^verbatim>\<open>re.IGNORECASE\<close>, where
  \<^verbatim>\<open>{type}\<close> is \<^verbatim>\<open>\d\<close> for \<^verbatim>\<open>int\<close> and \<^verbatim>\<open>\w\<close> otherwise. Line 136 puts the name
  into the pattern as it is, so the name is itself read as a regular expression. The
  names covered here are made of characters that stand for themselves, of the dot, which
  stands for any character but the newline, and of parentheses, which make capturing
  groups. Such a name matches a fixed number of characters: it is a list of items, one
  for each character matched, and its groups are the positions where they start and end,
  in the order of their opening parentheses. A closing parenthesis that closes nothing,
  and a group left open when the name ends, make \<^verbatim>\<open>re.compile\<close> raise. A name with
  another special character, one of \<^verbatim>\<open>\ ^ $ * + ? { } [ ] |\<close>, is not covered. Two
  characters match under \<^verbatim>\<open>IGNORECASE\<close> when their lower-case forms agree.
\<close>

datatype item = Lit char | AnyChar

record name_pattern =
  items :: "item list"
  groups :: "(nat \<times> nat) list"

datatype parsed = Parsed name_pattern | ReErrorRaised | NameNotCovered

definition is_meta :: "char \<Rightarrow> bool" where
  "is_meta c = (c \<in> set ''^$*+?{}[]|'' \<or> c = CHR 0x5C)"

fun parse_from :: "string \<Rightarrow> item list \<Rightarrow> nat list \<Rightarrow> (nat \<times> nat) list \<Rightarrow> parsed" where
  "parse_from [] its opened grps =
     (if opened = [] then Parsed \<lparr>items = its, groups = grps\<rparr> else ReErrorRaised)"
| "parse_from (c # cs) its opened grps =
     (if c = CHR ''(''
      then parse_from cs its (length grps # opened) (grps @ [(length its, length its)])
      else if c = CHR '')''
      then (case opened of
              [] \<Rightarrow> ReErrorRaised
            | g # outer \<Rightarrow> parse_from cs its outer (grps[g := (fst (grps ! g), length its)]))
      else if c = CHR ''.'' then parse_from cs (its @ [AnyChar]) opened grps
      else if is_meta c then NameNotCovered
      else parse_from cs (its @ [Lit c]) opened grps)"

definition parse_name :: "string \<Rightarrow> parsed" where
  "parse_name name = parse_from name [] [] []"

definition lower :: "char \<Rightarrow> char" where
  "lower c =
     (let n = cp c in
        if (65 \<le> n \<and> n \<le> 90) \<or> (192 \<le> n \<and> n \<le> 222 \<and> n \<noteq> 215) then char_of (n + 32) else c)"

definition is_sep :: "char \<Rightarrow> bool" where
  "is_sep c = (c = CHR '' '' \<or> c = CHR ''='' \<or> c = CHR '':'')"

fun class_of_type :: "py_type \<Rightarrow> char \<Rightarrow> bool" where
  "class_of_type PyInt c = is_digit c"
| "class_of_type PyStr c = is_word c"

fun item_matches :: "item \<Rightarrow> char \<Rightarrow> bool" where
  "item_matches (Lit a) c = (lower a = lower c)"
| "item_matches AnyChar c = (c \<noteq> CHR 10)"

text \<open>The name at the start of a text: what follows it, when it is there.\<close>

definition match_name :: "name_pattern \<Rightarrow> string \<Rightarrow> string option" where
  "match_name p s =
     (if length (items p) \<le> length s
         \<and> list_all2 item_matches (items p) (take (length (items p)) s)
      then Some (drop (length (items p)) s) else None)"

text \<open>
  The length of the match of the whole pattern at the start of a text. The name matches
  in one way only. Both repetitions are greedy; a separator is never of the value's
  class, so giving a separator back cannot turn a failure into a match, and the greedy
  match is the only one.
\<close>

definition pattern_match :: "name_pattern \<Rightarrow> py_type \<Rightarrow> string \<Rightarrow> nat option" where
  "pattern_match p ty s =
     (case match_name p s of
        None \<Rightarrow> None
      | Some r \<Rightarrow>
          (let seps = takeWhile is_sep r;
               vals = takeWhile (class_of_type ty) (dropWhile is_sep r)
           in if seps = [] \<or> vals = [] then None
              else Some (length (items p) + length seps + length vals)))"

text \<open>
  What \<^verbatim>\<open>findall\<close> returns for one match: the matched text when the pattern has no
  group, the text of the group when it has one, and the tuple of the texts of its groups
  when it has more.
\<close>

datatype found = FoundStr string | FoundTuple "string list"

definition group_text :: "string \<Rightarrow> nat \<times> nat \<Rightarrow> string" where
  "group_text m g = take (snd g - fst g) (drop (fst g) m)"

definition found_of :: "name_pattern \<Rightarrow> string \<Rightarrow> found" where
  "found_of p m =
     (case groups p of
        [] \<Rightarrow> FoundStr m
      | [g] \<Rightarrow> FoundStr (group_text m g)
      | gs \<Rightarrow> FoundTuple (map (group_text m) gs))"

text \<open>
  \<^verbatim>\<open>page_pattern.findall(text)\<close>: the matches from left to right, the scan resuming
  after each match. \<^verbatim>\<open>page_pattern.sub('', text)\<close>: the text with each of them deleted.
\<close>

function pattern_findall :: "name_pattern \<Rightarrow> py_type \<Rightarrow> string \<Rightarrow> found list" where
  "pattern_findall p ty [] = []"
| "pattern_findall p ty (c # cs) =
     (case pattern_match p ty (c # cs) of
        None \<Rightarrow> pattern_findall p ty cs
      | Some n \<Rightarrow> found_of p (take n (c # cs)) # pattern_findall p ty (drop n (c # cs)))"
  by pat_completeness auto
termination
  by (relation "measure (\<lambda>(p, ty, s). length s)")
     (auto simp: pattern_match_def Let_def split: option.splits if_splits)

function pattern_sub :: "name_pattern \<Rightarrow> py_type \<Rightarrow> string \<Rightarrow> string" where
  "pattern_sub p ty [] = []"
| "pattern_sub p ty (c # cs) =
     (case pattern_match p ty (c # cs) of
        None \<Rightarrow> c # pattern_sub p ty cs
      | Some n \<Rightarrow> pattern_sub p ty (drop n (c # cs)))"
  by pat_completeness auto
termination
  by (relation "measure (\<lambda>(p, ty, s). length s)")
     (auto simp: pattern_match_def Let_def split: option.splits if_splits)

text \<open>
  The two for a name rather than a compiled pattern; the extractor uses them after the
  name has compiled.
\<close>

definition findall :: "string \<Rightarrow> py_type \<Rightarrow> string \<Rightarrow> found list" where
  "findall name ty s = (case parse_name name of Parsed p \<Rightarrow> pattern_findall p ty s | _ \<Rightarrow> [])"

definition re_sub :: "string \<Rightarrow> py_type \<Rightarrow> string \<Rightarrow> string" where
  "re_sub name ty s = (case parse_name name of Parsed p \<Rightarrow> pattern_sub p ty s | _ \<Rightarrow> s)"

text \<open>\<^verbatim>\<open>re.findall('\d+', s)\<close>: the maximal runs of digits, from left to right.\<close>

function digit_runs :: "string \<Rightarrow> string list" where
  "digit_runs [] = []"
| "digit_runs (c # cs) =
     (if is_digit c then takeWhile is_digit (c # cs) # digit_runs (dropWhile is_digit cs)
      else digit_runs cs)"
  by pat_completeness auto
termination
  by (relation "measure length") (auto simp: length_dropWhile_le le_imp_less_Suc)

text \<open>\<^verbatim>\<open>int(s)\<close> on a string of decimal digits.\<close>

definition py_int :: "string \<Rightarrow> int" where
  "py_int s = foldl (\<lambda>a c. 10 * a + int (cp c - 48)) 0 s"

text \<open>Line 129, \<^verbatim>\<open>type_ = type_ or str\<close>.\<close>

definition type_or_str :: "py_type option \<Rightarrow> py_type" where
  "type_or_str type0 = (case type0 of None \<Rightarrow> PyStr | Some t \<Rightarrow> t)"

text \<open>\<^verbatim>\<open>Danbooru.extract_option_from_string\<close>, lines 118 to 144.\<close>

definition extract_option_from_string ::
  "string \<Rightarrow> string \<Rightarrow> py_type option \<Rightarrow> py_error + (string \<times> py_value option)" where
  "extract_option_from_string name text type0 =
     (let ty = type_or_str type0
      in case parse_name name of
           ReErrorRaised \<Rightarrow> Inl ReError
         | NameNotCovered \<Rightarrow> Inl NotCovered
         | Parsed page_pattern \<Rightarrow>
             (let match = pattern_findall page_pattern ty text
              in case match of
                   [] \<Rightarrow> Inr (text, None)
                 | m0 # _ \<Rightarrow>
                     (let text = pattern_sub page_pattern ty text
                      in case m0 of
                           FoundTuple _ \<Rightarrow> Inl TypeError
                         | FoundStr s \<Rightarrow>
                             (case digit_runs s of
                                [] \<Rightarrow> Inl IndexError
                              | out # _ \<Rightarrow>
                                  if ty = PyInt then Inr (text, Some (IntValue (py_int out)))
                                  else Inr (text, Some (StrValue out))))))"

section \<open>The translation command\<close>

text \<open>
  \<^verbatim>\<open>translate.py\<close>. The command talks to three things that are not in the module:
  \<^verbatim>\<open>get_option_from_string\<close> of \<^verbatim>\<open>xenian.bot.utils\<close> (it returns the option's value
  and the text without the option), the table \<^verbatim>\<open>LANGUAGES\<close> of googletrans, and the
  translator itself. They are the fields of the environment, and every statement below
  holds for whatever they are. A Python value that may be \<^verbatim>\<open>None\<close> is an option, and
  it is true in a condition when it is a string that is not empty.
\<close>

record translated =
  src :: string
  dest :: string
  translated_text :: string

record translate_env =
  get_option_from_string :: "string \<Rightarrow> string \<Rightarrow> string option \<times> string"
  LANGUAGES :: "string list"
  translator_translate :: "string option \<Rightarrow> string \<Rightarrow> translated"

record message =
  message_text :: string
  reply_to_message :: "string option option"

datatype translate_event =
    ReplyText string
  | ReplyMarkdown string
  | TranslatorCall "string option" string

definition truthy :: "string option \<Rightarrow> bool" where
  "truthy v = (case v of None \<Rightarrow> False | Some s \<Rightarrow> s \<noteq> [])"

text \<open>\<^verbatim>\<open>'{}'.format(v)\<close> of a string or of \<^verbatim>\<open>None\<close>.\<close>

definition format_str :: "string option \<Rightarrow> string" where
  "format_str v = (case v of None \<Rightarrow> ''None'' | Some s \<Rightarrow> s)"

text \<open>
  The direction of lines 102 to 108 of \<^verbatim>\<open>Translate.translate_text\<close>, and the call of
  line 110 that hands it to the translator.
\<close>

definition direction :: "string option \<Rightarrow> string option \<Rightarrow> string" where
  "direction lang_from lang_to =
     (if truthy lang_from \<and> \<not> truthy lang_to then format_str lang_from @ ''-en''
      else if truthy lang_from \<and> truthy lang_to then format_str lang_from @ ''-'' @ format_str lang_to
      else if \<not> truthy lang_from \<and> truthy lang_to then format_str lang_to
      else ''en'')"

definition translate_text ::
  "translate_env \<Rightarrow> string option \<Rightarrow> string option \<Rightarrow> string option \<Rightarrow> translated" where
  "translate_text env text lang_from lang_to =
     translator_translate env text (direction lang_from lang_to)"

text \<open>\<^verbatim>\<open>text.split(' ', 1)\<close>: the text cut at its first space, when it has one.\<close>

definition split_once :: "string \<Rightarrow> string list" where
  "split_once s =
     (case dropWhile (\<lambda>c. c \<noteq> CHR '' '') s of
        [] \<Rightarrow> [s]
      | _ # rest \<Rightarrow> [takeWhile (\<lambda>c. c \<noteq> CHR '' '') s, rest])"

text \<open>\<^verbatim>\<open>code not in LANGUAGES\<close>; \<^verbatim>\<open>None\<close> is no key of the table.\<close>

definition not_in_languages :: "translate_env \<Rightarrow> string option \<Rightarrow> bool" where
  "not_in_languages env code = (case code of None \<Rightarrow> True | Some c \<Rightarrow> c \<notin> set (LANGUAGES env))"

definition not_available :: "string option \<Rightarrow> string" where
  "not_available code = ''Given language (`'' @ format_str code @ ''`) is not available''"

text \<open>
  \<^verbatim>\<open>Translate.translate\<close>, lines 39 to 89. The result is what the command did, in
  order: its replies and its calls of the translator.
\<close>

definition translate :: "translate_env \<Rightarrow> message \<Rightarrow> translate_event list" where
  "translate env msg =
     (let primary_text = (case reply_to_message msg of None \<Rightarrow> None | Some t \<Rightarrow> t);
          split_text = split_once (message_text msg);
          secondary_text = (if length split_text > 1 then Some (split_text ! 1) else None);
          finish = (\<lambda>primary_text secondary_text translate_from translate_to.
            if \<not> truthy primary_text \<and> \<not> truthy secondary_text
            then [ReplyText ''You either have to reply to a message or give me some text.'']
            else
              (let translated = translate_text env primary_text translate_from translate_to;
                   reply = ''*TRANSLATION*: `'' @ src translated @ '' -> '' @ dest translated
                           @ ''`'' @ [CHR 10, CHR 10] @ translated_text translated
               in [TranslatorCall primary_text (direction translate_from translate_to),
                   ReplyMarkdown reply]))
      in if truthy secondary_text then
           (let (translate_from, new_text) = get_option_from_string env ''lf'' (format_str secondary_text)
            in if truthy translate_from \<and> not_in_languages env translate_from
               then [ReplyText (not_available translate_from)]
               else
                 (let secondary_text = (if truthy translate_from then Some new_text else secondary_text);
                      (translate_to, new_text) = get_option_from_string env ''lt'' (format_str secondary_text)
                  in if truthy translate_to \<and> not_in_languages env translate_to
                     then [ReplyText (not_available translate_to)]
                     else
                       (let secondary_text = (if truthy translate_to then Some new_text else secondary_text);
                            translate_to = (if truthy translate_to then translate_to else Some ''en'');
                            primary_text = (if \<not> truthy primary_text then secondary_text else primary_text)
                        in finish primary_text secondary_text translate_from translate_to)))
         else finish primary_text secondary_text None None)"

section \<open>The image-board commands\<close>

text \<open>
  \<^verbatim>\<open>danbooru.py\<close>. A query is the dictionary the command builds; \<^verbatim>\<open>tags\<close> is set by
  the search command only. A post is what the board returns: its id, its large file URL
  when it has one, and its source, which may be null. An \<^verbatim>\<open>InputMediaPhoto\<close> is a
  Python object: \<^verbatim>\<open>ref\<close> is its identity, which is what a Python set of such objects
  compares, and the send loop gives each object it builds a new one.
\<close>

record query =
  limit :: int
  page :: int
  tags :: "string option"

record post =
  post_id :: int
  large_file_url :: "string option"
  source :: "string option"

record InputMediaPhoto =
  ref :: nat
  media :: string
  caption :: string

datatype chat_action = TYPING | UPLOAD_PHOTO

datatype send_result = Sent | BadRequest

datatype event =
    SendChatAction chat_action
  | Reply string
  | PostList query
  | SendMediaGroup "InputMediaPhoto list" send_result
  | SendPhoto InputMediaPhoto send_result
  | Head string int

text \<open>
  What the command talks to: the board (\<^verbatim>\<open>client.site_url\<close>, \<^verbatim>\<open>client.post_list\<close>), the
  chat platform (\<^verbatim>\<open>bot.send_media_group\<close>, \<^verbatim>\<open>bot.send_photo\<close>, which either succeed or
  raise \<^verbatim>\<open>BadRequest\<close>), \<^verbatim>\<open>requests.head\<close> (its status code), and the order in which
  Python iterates over a set of objects. Each answer may depend on everything that
  happened before, the list of events so far; the event of a single photo names the
  object whose media and caption were sent. An exception other than
  \<^verbatim>\<open>BadRequest\<close> from one of them leaves the command at once and is not modelled.
\<close>

record env =
  site_url :: string
  post_list :: "event list \<Rightarrow> query \<Rightarrow> post list"
  send_media_group :: "event list \<Rightarrow> InputMediaPhoto list \<Rightarrow> send_result"
  send_photo :: "event list \<Rightarrow> string \<Rightarrow> string \<Rightarrow> send_result"
  requests_head :: "event list \<Rightarrow> string \<Rightarrow> int"
  set_order :: "InputMediaPhoto list \<Rightarrow> InputMediaPhoto list"

text \<open>The local variables of the send loop, and the events so far.\<close>

record state =
  media_list :: "InputMediaPhoto list"
  errors :: int
  trace :: "event list"

text \<open>\<^verbatim>\<open>str(n)\<close> of an integer, \<^verbatim>\<open>sep.join(xs)\<close> and \<^verbatim>\<open>text.split(',')\<close>.\<close>

function str_nat :: "nat \<Rightarrow> string" where
  "str_nat n = (if n < 10 then [char_of (48 + n)] else str_nat (n div 10) @ [char_of (48 + n mod 10)])"
  by pat_completeness auto
termination
  by (relation "measure (\<lambda>n. n)") auto

definition str_int :: "int \<Rightarrow> string" where
  "str_int i = (if i < 0 then CHR ''-'' # str_nat (nat (- i)) else str_nat (nat i))"

fun join :: "string \<Rightarrow> string list \<Rightarrow> string" where
  "join sep [] = []"
| "join sep [x] = x"
| "join sep (x # y # ys) = x @ sep @ join sep (y # ys)"

fun split :: "char \<Rightarrow> string \<Rightarrow> string list" where
  "split sep [] = [[]]"
| "split sep (c # cs) =
     (if c = sep then [] # split sep cs
      else (case split sep cs of [] \<Rightarrow> [[c]] | w # ws \<Rightarrow> (c # w) # ws))"

text \<open>
  Lines 165 to 175: the media list and the count of the posts that have no usable URL.
\<close>

fun build_media_list ::
  "env \<Rightarrow> post list \<Rightarrow> int \<times> InputMediaPhoto list \<Rightarrow> int \<times> InputMediaPhoto list" where
  "build_media_list env [] (errs, ms) = (errs, ms)"
| "build_media_list env (post # posts) (errs, ms) =
     (let image_url = large_file_url post;
          image_url = (if truthy image_url then Some (site_url env @ format_str image_url)
                       else source post)
      in if \<not> truthy image_url \<or> take 4 (format_str image_url) \<noteq> ''http''
         then build_media_list env posts (errs + 1, ms)
         else build_media_list env posts
                (errs,
                 ms @ [\<lparr>ref = length ms, media = format_str image_url,
                        caption = site_url env @ ''/posts/'' @ str_int (post_id post)\<rparr>]))"

text \<open>
  Lines 189 to 194: the probes of the items of a rejected batch, one after the other;
  the result is the events, the error count and \<^verbatim>\<open>error_list\<close>.
\<close>

fun probe ::
  "env \<Rightarrow> InputMediaPhoto list \<Rightarrow> event list \<times> int \<times> InputMediaPhoto list
     \<Rightarrow> event list \<times> int \<times> InputMediaPhoto list" where
  "probe env [] (tr, errs, error_list) = (tr, errs, error_list)"
| "probe env (m # ms) (tr, errs, error_list) =
     (let tr = tr @ [SendChatAction TYPING];
          status_code = requests_head env tr (media m);
          tr = tr @ [Head (media m) status_code]
      in if status_code > 399 \<or> status_code < 200
         then probe env ms (tr, errs + 1, error_list @ [m])
         else probe env ms (tr, errs, error_list))"

text \<open>
  \<^verbatim>\<open>list(set(media_list) - set(error_list))\<close>: the objects of the list that are not in
  \<^verbatim>\<open>error_list\<close>, each once, in the order in which Python iterates over the set.
\<close>

definition set_difference ::
  "env \<Rightarrow> InputMediaPhoto list \<Rightarrow> InputMediaPhoto list \<Rightarrow> InputMediaPhoto list" where
  "set_difference env ms error_list =
     set_order env (filter (\<lambda>m. m \<notin> set error_list) (remdups ms))"

text \<open>Lines 178 to 204: the body of the \<^verbatim>\<open>while\<close> loop, run on a list that is not empty.\<close>

definition loop_body :: "env \<Rightarrow> state \<Rightarrow> state" where
  "loop_body env st =
     (let tr = trace st @ [SendChatAction UPLOAD_PHOTO]
      in if length (media_list st) > 1 then
           (case send_media_group env tr (take 10 (media_list st)) of
              Sent \<Rightarrow>
                st\<lparr>media_list := drop 10 (media_list st),
                   trace := tr @ [SendMediaGroup (take 10 (media_list st)) Sent]\<rparr>
            | BadRequest \<Rightarrow>
                (let (tr, errs, error_list) =
                       probe env (take 10 (media_list st))
                         (tr @ [SendMediaGroup (take 10 (media_list st)) BadRequest], errors st, [])
                 in \<lparr>media_list = set_difference env (media_list st) error_list,
                     errors = errs, trace = tr\<rparr>))
         else
           (case media_list st of
              [] \<Rightarrow> st
            | m # rest \<Rightarrow>
                (let r = send_photo env tr (media m) (caption m)
                 in \<lparr>media_list = rest,
                     errors = (if r = BadRequest then errors st + 1 else errors st),
                     trace = tr @ [SendPhoto m r]\<rparr>)))"

text \<open>
  Lines 177 to 204: the \<^verbatim>\<open>while media_list:\<close> loop. Nothing bounds its iterations, so
  the result is an option, and \<open>None\<close> is the loop that never ends.
\<close>

partial_function (option) send_loop :: "env \<Rightarrow> state \<Rightarrow> state option" where
  [code]: "send_loop env st =
     (if media_list st \<noteq> [] then send_loop env (loop_body env st) else Some st)"

text \<open>Lines 155 and 156: the limit of the query is capped.\<close>

definition cap_limit :: "query \<Rightarrow> query" where
  "cap_limit query = (if limit query > 100 then query\<lparr>limit := 100\<rparr> else query)"

text \<open>Lines 161 to 206: what is done with the posts the board returned.\<close>

definition send_posts :: "env \<Rightarrow> event list \<Rightarrow> query \<Rightarrow> post list \<Rightarrow> event list option" where
  "send_posts env tr query posts =
     (if posts = [] then Some (tr @ [Reply (''Nothing found on page '' @ str_int (page query))])
      else
        (let (errs, ms) = build_media_list env posts (0, [])
         in case send_loop env \<lparr>media_list = ms, errors = errs, trace = tr\<rparr> of
              None \<Rightarrow> None
            | Some st \<Rightarrow>
                if errors st \<noteq> 0
                then Some (trace st @ [Reply (str_int (errors st) @ '' of the request ''
                             @ str_int (limit query) @ '' are not publicly available'')])
                else Some (trace st)))"

text \<open>\<^verbatim>\<open>Danbooru.post_list_send_media_group\<close>, lines 146 to 206.\<close>

definition post_list_send_media_group :: "env \<Rightarrow> event list \<Rightarrow> query \<Rightarrow> event list option" where
  "post_list_send_media_group env tr query =
     (let query = cap_limit query;
          posts = post_list env tr query
      in send_posts env (tr @ [PostList query]) query posts)"

text \<open>
  \<^verbatim>\<open>if page: query['page'] = page\<close> and the same for the limit: the value is stored
  when it is true in a condition, an integer other than 0 or a string that is not empty.
\<close>

definition value_truthy :: "py_value option \<Rightarrow> bool" where
  "value_truthy v =
     (case v of None \<Rightarrow> False | Some (IntValue n) \<Rightarrow> n \<noteq> 0 | Some (StrValue s) \<Rightarrow> s \<noteq> [])"

text \<open>
  The extractor is called with \<^verbatim>\<open>int\<close> and then returns an integer; a string in the
  dictionary would be compared with 100 in line 155, which Python refuses.
\<close>

definition int_of_value :: "py_value option \<Rightarrow> int" where
  "int_of_value v = (case v of Some (IntValue n) \<Rightarrow> n | _ \<Rightarrow> 0)"

text \<open>
  Lines 61 to 67 and 95 to 101: both options are taken out of the text and stored in the
  query. An exception of the extractor leaves the command.
\<close>

definition read_options :: "query \<Rightarrow> string \<Rightarrow> py_error + (string \<times> query)" where
  "read_options query text =
     (case extract_option_from_string ''page'' text (Some PyInt) of
        Inl e \<Rightarrow> Inl e
      | Inr (text, page_value) \<Rightarrow>
          (case extract_option_from_string ''limit'' text (Some PyInt) of
             Inl e \<Rightarrow> Inl e
           | Inr (text, limit_value) \<Rightarrow>
               (let query = (if value_truthy page_value
                             then query\<lparr>page := int_of_value page_value\<rparr> else query);
                    query = (if value_truthy limit_value
                             then query\<lparr>limit := int_of_value limit_value\<rparr> else query)
                in Inr (text, query))))"

text \<open>
  \<^verbatim>\<open>Danbooru.search_danbooru\<close>, lines 41 to 76. The result is \<open>None\<close> when the command
  never returns, an exception when it raises one, and the events otherwise.
\<close>

definition search_danbooru :: "env \<Rightarrow> event list \<Rightarrow> string list \<Rightarrow> (py_error + event list) option" where
  "search_danbooru env tr args =
     (let tr = tr @ [SendChatAction TYPING];
          query = \<lparr>limit = 5, page = 0, tags = None\<rparr>;
          text = join '' '' args
      in if text = [] then Some (Inr (tr @ [Reply ''You have to give me at least one tag.'']))
         else
           (case read_options query text of
              Inl e \<Rightarrow> Some (Inl e)
            | Inr (text, query) \<Rightarrow>
                (let terms = split (CHR '','') text;
                     terms = filter_terms terms;
                     query = query\<lparr>tags := Some (join '' '' (take 2 terms))\<rparr>;
                     tr = (if length terms > 2
                           then tr @ [Reply (''Only 2 tags per search supported, searching for ''
                                             @ format_str (tags query))]
                           else tr)
                 in map_option Inr (post_list_send_media_group env tr query))))"

text \<open>\<^verbatim>\<open>Danbooru.latest\<close>, lines 79 to 103.\<close>

definition latest :: "env \<Rightarrow> event list \<Rightarrow> string list \<Rightarrow> (py_error + event list) option" where
  "latest env tr args =
     (let tr = tr @ [SendChatAction TYPING];
          query = \<lparr>limit = 5, page = 0, tags = None\<rparr>;
          text = join '' '' args
      in case read_options query text of
           Inl e \<Rightarrow> Some (Inl e)
         | Inr (text, query) \<Rightarrow> map_option Inr (post_list_send_media_group env tr query))"

section \<open>The term filter as the specification words it\<close>

text \<open>
  The filter in the words of the specification, to be compared with the code: each term
  loses the characters outside a class, then its leading and trailing whitespace, and
  its spaces become underscores; empty terms are dropped; of equal terms the first one
  stays. The class is a parameter: the specification names the ASCII class
  \<^verbatim>\<open>[A-Za-z0-9_ ]\<close>, the code's pattern keeps the word characters of Python and the
  space.
\<close>

fun first_occurrences :: "'a list \<Rightarrow> 'a list" where
  "first_occurrences [] = []"
| "first_occurrences (x # xs) = x # first_occurrences (filter (\<lambda>y. y \<noteq> x) xs)"

definition ascii_class :: "char \<Rightarrow> bool" where
  "ascii_class c =
     (let n = cp c in
        (65 \<le> n \<and> n \<le> 90) \<or> (97 \<le> n \<and> n \<le> 122) \<or> (48 \<le> n \<and> n \<le> 57) \<or> n = 95 \<or> n = 32)"

definition python_class :: "char \<Rightarrow> bool" where
  "python_class c = (is_word c \<or> c = CHR '' '')"

definition spec_normalize :: "(char \<Rightarrow> bool) \<Rightarrow> string \<Rightarrow> string" where
  "spec_normalize keep t = replace_space (strip (filter keep t))"

definition spec_filter :: "(char \<Rightarrow> bool) \<Rightarrow> string list \<Rightarrow> string list" where
  "spec_filter keep terms =
     first_occurrences (filter (\<lambda>t. t \<noteq> []) (map (spec_normalize keep) terms))"

definition ascii_terms :: "string list \<Rightarrow> bool" where
  "ascii_terms terms = list_all (\<lambda>t. list_all (\<lambda>c. cp c < 128) t) terms"

section \<open>The language codes a message supplies\<close>

text \<open>
  Names for what the translation command reads from a message, used to state its
  properties: the text after the command word, the value of \<^verbatim>\<open>-lf\<close> in it, and the
  value of \<^verbatim>\<open>-lt\<close> in what is left once a \<^verbatim>\<open>-lf\<close> option has been taken out. A
  supplied code is unsupported when it is a string that is not empty and no key of
  \<^verbatim>\<open>LANGUAGES\<close>.
\<close>

definition secondary_text :: "message \<Rightarrow> string option" where
  "secondary_text msg =
     (let split_text = split_once (message_text msg)
      in if length split_text > 1 then Some (split_text ! 1) else None)"

definition supplied_from :: "translate_env \<Rightarrow> message \<Rightarrow> string option" where
  "supplied_from env msg =
     (if truthy (secondary_text msg)
      then fst (get_option_from_string env ''lf'' (format_str (secondary_text msg)))
      else None)"

definition supplied_to :: "translate_env \<Rightarrow> message \<Rightarrow> string option" where
  "supplied_to env msg =
     (if truthy (secondary_text msg)
      then (let (lf, new_text) = get_option_from_string env ''lf'' (format_str (secondary_text msg));
                rest = (if truthy lf then new_text else format_str (secondary_text msg))
            in fst (get_option_from_string env ''lt'' rest))
      else None)"

definition unsupported :: "translate_env \<Rightarrow> string option \<Rightarrow> bool" where
  "unsupported env code = (truthy code \<and> not_in_languages env code)"

section \<open>Words for the properties of the option extractor\<close>

text \<open>
  The match of the pattern of a name at the start of a text, and the first matched
  substring of a text. The residual text as the specification words it, the input with
  the first match removed and nothing else altered. A covered name without a group; a
  piece of text that the name matches, character by character; and a prefix of a text in
  which no match of the pattern starts, so that what follows it starts with the first
  match.
\<close>

definition match_at :: "string \<Rightarrow> py_type \<Rightarrow> string \<Rightarrow> nat option" where
  "match_at name ty s = (case parse_name name of Parsed p \<Rightarrow> pattern_match p ty s | _ \<Rightarrow> None)"

fun first_match :: "string \<Rightarrow> py_type \<Rightarrow> string \<Rightarrow> string option" where
  "first_match name ty [] = None"
| "first_match name ty (c # cs) =
     (case match_at name ty (c # cs) of
        None \<Rightarrow> first_match name ty cs
      | Some n \<Rightarrow> Some (take n (c # cs)))"

fun remove_first_match :: "string \<Rightarrow> py_type \<Rightarrow> string \<Rightarrow> string" where
  "remove_first_match name ty [] = []"
| "remove_first_match name ty (c # cs) =
     (case match_at name ty (c # cs) of
        None \<Rightarrow> c # remove_first_match name ty cs
      | Some n \<Rightarrow> drop n (c # cs))"

definition without_group :: "string \<Rightarrow> bool" where
  "without_group name = (case parse_name name of Parsed p \<Rightarrow> groups p = [] | _ \<Rightarrow> False)"

definition name_matches :: "string \<Rightarrow> string \<Rightarrow> bool" where
  "name_matches name nm =
     (case parse_name name of Parsed p \<Rightarrow> list_all2 item_matches (items p) nm | _ \<Rightarrow> False)"

definition no_match_within :: "string \<Rightarrow> py_type \<Rightarrow> string \<Rightarrow> string \<Rightarrow> bool" where
  "no_match_within name ty pre s =
     list_all (\<lambda>i. match_at name ty (drop i (pre @ s)) = None) [0..<length pre]"

section \<open>Words for the properties of the send loop\<close>

text \<open>
  The state after at most \<open>k\<close> iterations of the \<^verbatim>\<open>while\<close> loop: the loop returns
  exactly when some number of iterations empties the list.
\<close>

fun iterations :: "env \<Rightarrow> nat \<Rightarrow> state \<Rightarrow> state" where
  "iterations env 0 st = st"
| "iterations env (Suc k) st =
     (if media_list st \<noteq> [] then iterations env k (loop_body env st) else st)"

text \<open>
  What the events say: the objects of a send attempt, the objects that were sent, in
  order, the URLs that were probed and the status codes of the probes.
\<close>

fun attempted :: "event \<Rightarrow> InputMediaPhoto set" where
  "attempted (SendMediaGroup ms r) = set ms"
| "attempted (SendPhoto m r) = {m}"
| "attempted (SendChatAction a) = {}"
| "attempted (Reply t) = {}"
| "attempted (PostList q) = {}"
| "attempted (Head u s) = {}"

fun sent_items :: "event list \<Rightarrow> InputMediaPhoto list" where
  "sent_items [] = []"
| "sent_items (SendMediaGroup ms Sent # evs) = ms @ sent_items evs"
| "sent_items (SendPhoto m Sent # evs) = m # sent_items evs"
| "sent_items (ev # evs) = sent_items evs"

fun probed :: "event list \<Rightarrow> string list" where
  "probed [] = []"
| "probed (Head u s # evs) = u # probed evs"
| "probed (ev # evs) = probed evs"

fun head_statuses :: "event list \<Rightarrow> int list" where
  "head_statuses [] = []"
| "head_statuses (Head u s # evs) = s # head_statuses evs"
| "head_statuses (ev # evs) = head_statuses evs"

text \<open>
  The items of a batch whose probe answered with a status outside of 200 to 399, the
  statuses being those of the probes in the order of the batch.
\<close>

definition failed_items :: "InputMediaPhoto list \<Rightarrow> int list \<Rightarrow> InputMediaPhoto list" where
  "failed_items batch statuses =
     map fst (filter (\<lambda>(m, s). s > 399 \<or> s < 200) (zip batch statuses))"

text \<open>The events of a state that came after those of an earlier state.\<close>

definition events_since :: "state \<Rightarrow> state \<Rightarrow> event list" where
  "events_since st st' = drop (length (trace st)) (trace st')"

text \<open>
  Python fixes no order for the iteration over a set, only that every element comes
  once.
\<close>

definition set_order_permutes :: "env \<Rightarrow> bool" where
  "set_order_permutes env = (\<forall>xs. set (set_order env xs) = set xs)"

text \<open>The objects of all send attempts of a list of events, in the order of the attempts.\<close>

fun attempt_items :: "event list \<Rightarrow> InputMediaPhoto list" where
  "attempt_items [] = []"
| "attempt_items (SendMediaGroup ms r # evs) = ms @ attempt_items evs"
| "attempt_items (SendPhoto m r # evs) = m # attempt_items evs"
| "attempt_items (ev # evs) = attempt_items evs"

section \<open>Example environments\<close>

text \<open>
  Boards, chats and hosts for the concrete runs below. The board returns posts with
  large file URLs. In the first environment the board is empty. In the second the chat
  rejects every media group while every probed URL answers 200. In the third the chat
  rejects a group that holds the first post's image, whose URL answers 404, and the set
  is iterated from its last element. The fourth is the second with a board of twelve
  posts.
\<close>

definition example_posts :: "nat \<Rightarrow> post list" where
  "example_posts n =
     map (\<lambda>i. \<lparr>post_id = int i, large_file_url = Some (''/'' @ str_nat i @ ''.jpg''),
               source = None\<rparr>) [0..<n]"

definition empty_env :: env where
  "empty_env =
     \<lparr>site_url = ''https://danbooru.donmai.us'',
      post_list = (\<lambda>tr q. []),
      send_media_group = (\<lambda>tr ms. Sent),
      send_photo = (\<lambda>tr m c. Sent),
      requests_head = (\<lambda>tr u. 200),
      set_order = (\<lambda>xs. xs)\<rparr>"

definition stuck_env :: env where
  "stuck_env =
     \<lparr>site_url = ''https://danbooru.donmai.us'',
      post_list = (\<lambda>tr q. example_posts 2),
      send_media_group = (\<lambda>tr ms. BadRequest),
      send_photo = (\<lambda>tr m c. Sent),
      requests_head = (\<lambda>tr u. 200),
      set_order = (\<lambda>xs. xs)\<rparr>"

definition reorder_env :: env where
  "reorder_env =
     \<lparr>site_url = ''https://danbooru.donmai.us'',
      post_list = (\<lambda>tr q. example_posts 12),
      send_media_group =
        (\<lambda>tr ms. if ''https://danbooru.donmai.us/0.jpg'' \<in> set (map media ms)
                  then BadRequest else Sent),
      send_photo = (\<lambda>tr m c. Sent),
      requests_head = (\<lambda>tr u. if u = ''https://danbooru.donmai.us/0.jpg'' then 404 else 200),
      set_order = (\<lambda>xs. case xs of [] \<Rightarrow> [] | _ # _ \<Rightarrow> last xs # butlast xs)\<rparr>"

definition stuck12_env :: env where
  "stuck12_env =
     \<lparr>site_url = ''https://danbooru.donmai.us'',
      post_list = (\<lambda>tr q. example_posts 12),
      send_media_group = (\<lambda>tr ms. BadRequest),
      send_photo = (\<lambda>tr m c. Sent),
      requests_head = (\<lambda>tr u. 200),
      set_order = (\<lambda>xs. xs)\<rparr>"

text \<open>
  The events of one iteration on a pending list whose media group is rejected while every
  probe answers 200: the upload action, the rejected group of the first ten items, and a
  typing action and a probe for each of the ten.
\<close>

definition rejected_round :: "InputMediaPhoto list \<Rightarrow> event list" where
  "rejected_round ms =
     [SendChatAction UPLOAD_PHOTO, SendMediaGroup (take 10 ms) BadRequest]
     @ concat (map (\<lambda>m. [SendChatAction TYPING, Head (media m) 200]) (take 10 ms))"

text \<open>
  A translator that answers with the direction it was given, and an option reader that
  finds nothing.
\<close>

definition echo_env :: translate_env where
  "echo_env =
     \<lparr>get_option_from_string = (\<lambda>name text. (None, text)),
      LANGUAGES = [''en'', ''de'', ''fr''],
      translator_translate = (\<lambda>t d. \<lparr>src = ''auto'', dest = d, translated_text = d\<rparr>)\<rparr>"

text \<open>The values of the two options in a text, as the commands read them.\<close>

definition page_option :: "string \<Rightarrow> int option" where
  "page_option text =
     (case extract_option_from_string ''page'' text (Some PyInt) of
        Inr (t, Some (IntValue n)) \<Rightarrow> Some n
      | _ \<Rightarrow> None)"

definition limit_option :: "string \<Rightarrow> int option" where
  "limit_option text =
     (case extract_option_from_string ''page'' text (Some PyInt) of
        Inr (t, _) \<Rightarrow>
          (case extract_option_from_string ''limit'' t (Some PyInt) of
             Inr (_, Some (IntValue n)) \<Rightarrow> Some n
           | _ \<Rightarrow> None)
      | _ \<Rightarrow> None)"

section \<open>Properties of the term filter\<close>

lemma underscore_is_word: "is_word (CHR ''_'')"
  by (simp add: is_word_def cp_def)

lemma space_not_word: "\<not> is_word (CHR '' '')"
  by (simp add: is_word_def cp_def)

lemma word_not_space: "is_word c \<Longrightarrow> \<not> is_space c"
  unfolding is_word_def is_space_def Let_def by arith

lemma non_alphanum_char_iff: "non_alphanum_char c \<longleftrightarrow> \<not> python_class c"
  using underscore_is_word by (auto simp: non_alphanum_char_def python_class_def)

lemma set_strip_subset: "set (strip s) \<subseteq> set s"
  by (auto simp: strip_def dest!: set_dropWhileD)

lemma foldl_fromkeys:
  "foldl (\<lambda>d k. if k \<in> set d then d else d @ [k]) acc ks
     = acc @ first_occurrences (filter (\<lambda>k. k \<notin> set acc) ks)"
proof (induction ks arbitrary: acc)
  case Nil
  show ?case by simp
next
  case (Cons k ks)
  show ?case
  proof (cases "k \<in> set acc")
    case True
    then show ?thesis using Cons.IH [of acc] by simp
  next
    case False
    have "filter (\<lambda>x. x \<notin> set (acc @ [k])) ks
            = filter (\<lambda>y. y \<noteq> k) (filter (\<lambda>x. x \<notin> set acc) ks)"
      by (auto intro: filter_cong)
    then show ?thesis using False Cons.IH [of "acc @ [k]"] by simp
  qed
qed

lemma fromkeys_first_occurrences: "fromkeys ks = first_occurrences ks"
  by (simp add: fromkeys_def foldl_fromkeys)

lemma set_first_occurrences: "set (first_occurrences xs) = set xs"
  by (induction xs rule: first_occurrences.induct) auto

lemma distinct_first_occurrences: "distinct (first_occurrences xs)"
  by (induction xs rule: first_occurrences.induct) (auto simp: set_first_occurrences)

lemma first_occurrences_distinct: "distinct xs \<Longrightarrow> first_occurrences xs = xs"
proof (induction xs)
  case Nil
  show ?case by simp
next
  case (Cons x xs)
  then have "filter (\<lambda>y. y \<noteq> x) xs = xs" by (auto intro: filter_True)
  with Cons show ?case by simp
qed

lemma spec_normalize_word: "c \<in> set (spec_normalize python_class t) \<Longrightarrow> is_word c"
proof -
  assume "c \<in> set (spec_normalize python_class t)"
  then have "c \<in> (\<lambda>c. if c = CHR '' '' then CHR ''_'' else c) ` set (filter python_class t)"
    using set_strip_subset unfolding spec_normalize_def replace_space_def by fastforce
  then show "is_word c" using underscore_is_word by (auto simp: python_class_def)
qed

lemma filter_terms_python_class: "filter_terms terms = spec_filter python_class terms"
proof -
  have m: "\<not> non_alphanum_match (spec_normalize python_class t)" for t
  proof (cases "spec_normalize python_class t")
    case Nil
    then show ?thesis by (simp add: non_alphanum_match_def)
  next
    case (Cons c cs)
    then have "c \<in> set (spec_normalize python_class t)" by simp
    then have "is_word c" by (rule spec_normalize_word)
    then show ?thesis
      using Cons by (simp add: non_alphanum_match_def non_alphanum_char_iff python_class_def)
  qed
  have n: "replace_space (strip (non_alphanum_sub t)) = spec_normalize python_class t" for t
    by (simp add: spec_normalize_def non_alphanum_sub_def non_alphanum_char_iff)
  have f: "filter (\<lambda>term. \<not> non_alphanum_match term \<and> term \<noteq> [])
             (map (spec_normalize python_class) terms)
           = filter (\<lambda>t. t \<noteq> []) (map (spec_normalize python_class) terms)"
    by (rule filter_cong) (auto simp: m)
  show ?thesis
    by (simp add: filter_terms_def spec_filter_def fromkeys_first_occurrences n f o_def)
qed

lemma ascii_class_python_class: "cp c < 128 \<Longrightarrow> ascii_class c = python_class c"
proof -
  assume a: "cp c < 128"
  have "cp (CHR '' '') = 32" by (simp add: cp_def)
  then have "c = CHR '' '' \<longleftrightarrow> cp c = 32"
    unfolding cp_def by (metis of_char_eq_iff)
  then show ?thesis
    using a unfolding ascii_class_def python_class_def is_word_def Let_def by auto
qed

lemma spec_filter_ascii:
  "ascii_terms terms \<Longrightarrow> spec_filter ascii_class terms = spec_filter python_class terms"
proof -
  assume a: "ascii_terms terms"
  have "spec_normalize ascii_class t = spec_normalize python_class t" if "t \<in> set terms" for t
  proof -
    from a that have "\<forall>c\<in>set t. cp c < 128" by (auto simp: ascii_terms_def list_all_iff)
    then have "filter ascii_class t = filter python_class t"
      by (auto intro: filter_cong simp: ascii_class_python_class)
    then show ?thesis by (simp add: spec_normalize_def)
  qed
  then have "map (spec_normalize ascii_class) terms = map (spec_normalize python_class) terms"
    by (intro map_cong) auto
  then show ?thesis by (simp only: spec_filter_def)
qed

lemma strip_id: "\<forall>c\<in>set s. \<not> is_space c \<Longrightarrow> strip s = s"
proof -
  assume a: "\<forall>c\<in>set s. \<not> is_space c"
  then have "dropWhile is_space s = s" by (cases s) auto
  moreover from a have "dropWhile is_space (rev s) = rev s" by (cases "rev s") auto
  ultimately show ?thesis by (simp add: strip_def)
qed

lemma spec_normalize_id: "\<forall>c\<in>set t. is_word c \<Longrightarrow> spec_normalize python_class t = t"
proof -
  assume a: "\<forall>c\<in>set t. is_word c"
  then have 1: "filter python_class t = t" by (auto intro: filter_True simp: python_class_def)
  from a have 2: "strip t = t" by (auto intro: strip_id dest: word_not_space)
  from a have "\<forall>c\<in>set t. c \<noteq> CHR '' ''" using space_not_word by auto
  then have 3: "replace_space t = t"
    unfolding replace_space_def by (induction t) auto
  show ?thesis by (simp add: spec_normalize_def 1 2 3)
qed

lemma spec_filter_terms_word:
  "t \<in> set (spec_filter python_class terms) \<Longrightarrow> t \<noteq> [] \<and> (\<forall>c\<in>set t. is_word c)"
  by (auto simp: spec_filter_def set_first_occurrences spec_normalize_word)

lemma spec_filter_idem:
  "spec_filter python_class (spec_filter python_class terms) = spec_filter python_class terms"
proof -
  let ?ys = "spec_filter python_class terms"
  have "map (spec_normalize python_class) ?ys = ?ys"
    by (rule map_idI) (auto dest: spec_filter_terms_word intro: spec_normalize_id)
  moreover have "filter (\<lambda>t. t \<noteq> []) ?ys = ?ys"
    by (rule filter_True) (auto dest: spec_filter_terms_word)
  moreover have "distinct ?ys" by (simp add: spec_filter_def distinct_first_occurrences)
  ultimately show ?thesis
    using first_occurrences_distinct [of ?ys] by (simp add: spec_filter_def [of _ ?ys])
qed

text \<open>
  C6, as the code has it. For every list of terms, \<^verbatim>\<open>filter_terms\<close> removes from each
  term the characters that are neither word characters of Python (letters, digits and the
  underscore, those beyond ASCII included) nor spaces, strips the whitespace at both
  ends, turns the spaces into underscores, drops the terms that are then empty and keeps
  the first of equal terms, in the order of first occurrence. On terms of ASCII
  characters the class is \<^verbatim>\<open>[A-Za-z0-9_ ]\<close>, as the specification words it, and
  \<^verbatim>\<open>filter(["foo!", "foo", "  bar baz  ", ""])\<close> is \<^verbatim>\<open>["foo", "bar_baz"]\<close>.
\<close>

theorem filter_terms_normalizes:
  "filter_terms terms = spec_filter python_class terms
   \<and> (ascii_terms terms \<longrightarrow> filter_terms terms = spec_filter ascii_class terms)
   \<and> filter_terms [''foo!'', ''foo'', ''  bar baz  '', ''''] = [''foo'', ''bar_baz'']"
proof (intro conjI impI)
  show "filter_terms terms = spec_filter python_class terms"
    by (rule filter_terms_python_class)
  show "filter_terms terms = spec_filter ascii_class terms" if "ascii_terms terms"
    using that by (simp add: filter_terms_python_class spec_filter_ascii)
  show "filter_terms [''foo!'', ''foo'', ''  bar baz  '', ''''] = [''foo'', ''bar_baz'']"
    by code_simp
qed

theorem filter_terms_normalizes_witness:
  "ascii_terms [''a b'', ''a_b'', ''c?'']
   \<and> filter_terms [''a b'', ''a_b'', ''c?''] = [''a_b'', ''c'']
   \<and> spec_filter ascii_class [''a b'', ''a_b'', ''c?''] = [''a_b'', ''c'']"
proof -
  have a: "ascii_terms [''a b'', ''a_b'', ''c?'']" by code_simp
  have s: "spec_filter ascii_class [''a b'', ''a_b'', ''c?''] = [''a_b'', ''c'']" by code_simp
  from filter_terms_normalizes [of "[''a b'', ''a_b'', ''c?'']"] a
  have "filter_terms [''a b'', ''a_b'', ''c?''] = spec_filter ascii_class [''a b'', ''a_b'', ''c?'']"
    by blast
  with a s show ?thesis by simp
qed

text \<open>
  C6 as the specification words it, with the class \<^verbatim>\<open>[A-Za-z0-9_ ]\<close>, fails on a term
  with a letter beyond ASCII: \<^verbatim>\<open>\w\<close> of a Python 3 pattern accepts the letter U+00E9,
  so the code keeps the term that the specification's class would empty and drop.
\<close>

theorem filter_terms_ascii_class_counterexample:
  "filter_terms [[CHR 0xE9]] = [[CHR 0xE9]] \<and> spec_filter ascii_class [[CHR 0xE9]] = []"
  by code_simp

text \<open>
  C7. The filter is idempotent: applied to its own result, it returns that result.
\<close>

theorem filter_terms_idempotent: "filter_terms (filter_terms x) = filter_terms x"
  by (simp add: filter_terms_python_class spec_filter_idem)

section \<open>Properties of the translation command\<close>

text \<open>
  C5. \<^verbatim>\<open>translate_text\<close> hands the translator the direction of the table: \<^verbatim>\<open>en\<close> when
  neither language is given, the source followed by \<^verbatim>\<open>-en\<close> when only the source is,
  source, dash and target when both are, and the target alone when only the target is.
  A language is given when it is a string that is not empty, and absent when it is
  \<^verbatim>\<open>None\<close>.
\<close>

theorem translate_text_direction:
  assumes "lf \<noteq> []" and "lt \<noteq> []"
  shows "translate_text env text None None = translator_translate env text ''en''
       \<and> translate_text env text (Some lf) None = translator_translate env text (lf @ ''-en'')
       \<and> translate_text env text (Some lf) (Some lt) = translator_translate env text (lf @ ''-'' @ lt)
       \<and> translate_text env text None (Some lt) = translator_translate env text lt"
  using assms by (simp add: translate_text_def direction_def truthy_def format_str_def)

theorem translate_text_direction_witness:
  "translate_text echo_env (Some ''hi'') None None
     = translator_translate echo_env (Some ''hi'') ''en''
   \<and> translate_text echo_env (Some ''hi'') (Some ''fr'') None
     = translator_translate echo_env (Some ''hi'') ''fr-en''
   \<and> translate_text echo_env (Some ''hi'') (Some ''fr'') (Some ''de'')
     = translator_translate echo_env (Some ''hi'') ''fr-de''
   \<and> translate_text echo_env (Some ''hi'') None (Some ''de'')
     = translator_translate echo_env (Some ''hi'') ''de''
   \<and> dest (translate_text echo_env (Some ''hi'') (Some ''fr'') None) = ''fr-en''"
proof -
  have "dest (translator_translate echo_env (Some ''hi'') ''fr-en'') = ''fr-en''"
    by (simp add: echo_env_def)
  with translate_text_direction [of "''fr''" "''de''" echo_env "Some ''hi''"]
  show ?thesis by simp
qed

text \<open>
  The outcome of the command by the codes its message supplies: the reply of lines 62
  and 69 for an unsupported code, and the direction of every call of the translator.
\<close>

lemma translate_not_available:
  "(unsupported env (supplied_from env msg) \<longrightarrow>
      translate env msg = [ReplyText (not_available (supplied_from env msg))])
   \<and> (\<not> unsupported env (supplied_from env msg) \<and> unsupported env (supplied_to env msg) \<longrightarrow>
      translate env msg = [ReplyText (not_available (supplied_to env msg))])
   \<and> (\<forall>text d. TranslatorCall text d \<in> set (translate env msg) \<longrightarrow>
        \<not> unsupported env (supplied_from env msg) \<and> \<not> unsupported env (supplied_to env msg)
        \<and> d = direction (supplied_from env msg)
                (if truthy (supplied_to env msg) then supplied_to env msg
                 else if truthy (secondary_text msg) then Some ''en'' else None))"
proof (cases "truthy (secondary_text msg)")
  case False
  then have s: "\<not> truthy (if 1 < length (split_once (message_text msg))
                          then Some (split_once (message_text msg) ! 1) else None)"
    by (simp add: secondary_text_def Let_def)
  from False have "supplied_from env msg = None" "supplied_to env msg = None"
    by (simp_all add: supplied_from_def supplied_to_def)
  moreover have "\<not> unsupported env None" by (simp add: unsupported_def truthy_def)
  moreover have "TranslatorCall t d \<in> set (translate env msg) \<Longrightarrow> d = direction None None"
    for t d
    using s unfolding translate_def Let_def translate_text_def
    by (auto split: if_splits)
  ultimately show ?thesis using False by auto
next
  case True
  then have s: "truthy (if 1 < length (split_once (message_text msg))
                        then Some (split_once (message_text msg) ! 1) else None)"
    by (simp add: secondary_text_def Let_def)
  define sec where "sec = format_str (secondary_text msg)"
  obtain lf t1 where g1: "get_option_from_string env ''lf'' sec = (lf, t1)"
    by (cases "get_option_from_string env ''lf'' sec")
  define rest where "rest = (if truthy lf then t1 else sec)"
  obtain lt t2 where g2: "get_option_from_string env ''lt'' rest = (lt, t2)"
    by (cases "get_option_from_string env ''lt'' rest")
  have sf: "supplied_from env msg = lf"
    using True g1 by (simp add: supplied_from_def sec_def)
  have st: "supplied_to env msg = lt"
    using True g1 g2 by (cases "truthy lf") (simp_all add: supplied_to_def sec_def rest_def Let_def)
  have sec': "format_str (if 1 < length (split_once (message_text msg))
                          then Some (split_once (message_text msg) ! 1) else None) = sec"
    by (simp add: sec_def secondary_text_def Let_def)
  have fs: "format_str (Some t1) = t1" by (simp add: format_str_def)
  have r: "format_str (if truthy lf then Some t1
                       else if 1 < length (split_once (message_text msg))
                            then Some (split_once (message_text msg) ! 1) else None) = rest"
    using sec' by (simp add: rest_def fs)
  show ?thesis
  proof (cases "unsupported env lf")
    case True
    then have "translate env msg = [ReplyText (not_available lf)]"
      using s g1 unfolding translate_def Let_def sec' by (simp add: unsupported_def)
    then show ?thesis using True sf by simp
  next
    case lf_ok: False
    show ?thesis
    proof (cases "unsupported env lt")
      case True
      then have "translate env msg = [ReplyText (not_available lt)]"
        using s g1 g2 lf_ok unfolding translate_def Let_def sec'
        by (auto simp: unsupported_def r)
      then show ?thesis using True lf_ok sf st by simp
    next
      case lt_ok: False
      have "TranslatorCall t d \<in> set (translate env msg) \<Longrightarrow>
              d = direction lf (if truthy lt then lt else Some ''en'')" for t d
        using s g1 g2 lf_ok lt_ok unfolding translate_def Let_def sec' translate_text_def
        by (auto simp: unsupported_def r split: if_splits)
      then show ?thesis using lf_ok lt_ok sf st \<open>truthy (secondary_text msg)\<close> by auto
    qed
  qed
qed

text \<open>
  C8. When the source code a message supplies is unsupported, the command replies with
  the text that names that code, and does nothing else; when the source is acceptable
  and the target code is unsupported, it replies with the text that names the target
  code, and does nothing else. So the translator is called only when neither supplied
  code is unsupported, and then with the direction built from them.
\<close>

theorem translate_unsupported_language:
  "(unsupported env (supplied_from env msg) \<longrightarrow>
      (\<exists>code. supplied_from env msg = Some code \<and> code \<noteq> [] \<and> code \<notin> set (LANGUAGES env)
         \<and> translate env msg
             = [ReplyText (''Given language (`'' @ code @ ''`) is not available'')]))
   \<and> (\<not> unsupported env (supplied_from env msg) \<and> unsupported env (supplied_to env msg) \<longrightarrow>
      (\<exists>code. supplied_to env msg = Some code \<and> code \<noteq> [] \<and> code \<notin> set (LANGUAGES env)
         \<and> translate env msg
             = [ReplyText (''Given language (`'' @ code @ ''`) is not available'')]))
   \<and> (\<forall>text d. TranslatorCall text d \<in> set (translate env msg) \<longrightarrow>
        \<not> unsupported env (supplied_from env msg) \<and> \<not> unsupported env (supplied_to env msg)
        \<and> d = direction (supplied_from env msg)
                (if truthy (supplied_to env msg) then supplied_to env msg
                 else if truthy (secondary_text msg) then Some ''en'' else None))"
proof -
  have n: "\<exists>code. c = Some code \<and> code \<noteq> [] \<and> code \<notin> set (LANGUAGES env)
             \<and> not_available c = ''Given language (`'' @ code @ ''`) is not available''"
    if "unsupported env c" for c
    using that
    by (cases c) (simp_all add: unsupported_def truthy_def not_in_languages_def
                                not_available_def format_str_def)
  note t = translate_not_available [of env msg]
  have 1: "\<exists>code. supplied_from env msg = Some code \<and> code \<noteq> [] \<and> code \<notin> set (LANGUAGES env)
             \<and> translate env msg
                 = [ReplyText (''Given language (`'' @ code @ ''`) is not available'')]"
    if u: "unsupported env (supplied_from env msg)"
  proof -
    from t u have "translate env msg = [ReplyText (not_available (supplied_from env msg))]"
      by simp
    with n [OF u] show ?thesis by auto
  qed
  have 2: "\<exists>code. supplied_to env msg = Some code \<and> code \<noteq> [] \<and> code \<notin> set (LANGUAGES env)
             \<and> translate env msg
                 = [ReplyText (''Given language (`'' @ code @ ''`) is not available'')]"
    if f: "\<not> unsupported env (supplied_from env msg)" and u: "unsupported env (supplied_to env msg)"
  proof -
    from t f u have "translate env msg = [ReplyText (not_available (supplied_to env msg))]"
      by simp
    with n [OF u] show ?thesis by auto
  qed
  from t have 3: "\<forall>text d. TranslatorCall text d \<in> set (translate env msg) \<longrightarrow>
        \<not> unsupported env (supplied_from env msg) \<and> \<not> unsupported env (supplied_to env msg)
        \<and> d = direction (supplied_from env msg)
                (if truthy (supplied_to env msg) then supplied_to env msg
                 else if truthy (secondary_text msg) then Some ''en'' else None)"
    by blast
  from 1 2 3 show ?thesis by blast
qed

theorem translate_unsupported_language_witness:
  "unsupported
     \<lparr>get_option_from_string = (\<lambda>name text. if name = ''lf'' then (Some ''xx'', ''hello'') else (None, text)),
      LANGUAGES = [''en'', ''de''],
      translator_translate = (\<lambda>t d. \<lparr>src = ''auto'', dest = d, translated_text = ''hallo''\<rparr>)\<rparr>
     (supplied_from
        \<lparr>get_option_from_string = (\<lambda>name text. if name = ''lf'' then (Some ''xx'', ''hello'') else (None, text)),
         LANGUAGES = [''en'', ''de''],
         translator_translate = (\<lambda>t d. \<lparr>src = ''auto'', dest = d, translated_text = ''hallo''\<rparr>)\<rparr>
        \<lparr>message_text = ''/translate hello -lf xx'', reply_to_message = None\<rparr>)
   \<and> translate
       \<lparr>get_option_from_string = (\<lambda>name text. if name = ''lf'' then (Some ''xx'', ''hello'') else (None, text)),
        LANGUAGES = [''en'', ''de''],
        translator_translate = (\<lambda>t d. \<lparr>src = ''auto'', dest = d, translated_text = ''hallo''\<rparr>)\<rparr>
       \<lparr>message_text = ''/translate hello -lf xx'', reply_to_message = None\<rparr>
     = [ReplyText ''Given language (`xx`) is not available'']"
proof -
  define env :: translate_env where
    "env = \<lparr>get_option_from_string = (\<lambda>name text. if name = ''lf'' then (Some ''xx'', ''hello'') else (None, text)),
            LANGUAGES = [''en'', ''de''],
            translator_translate = (\<lambda>t d. \<lparr>src = ''auto'', dest = d, translated_text = ''hallo''\<rparr>)\<rparr>"
  define msg :: message where
    "msg = \<lparr>message_text = ''/translate hello -lf xx'', reply_to_message = None\<rparr>"
  have sf: "supplied_from env msg = Some ''xx''"
    by (simp add: supplied_from_def secondary_text_def split_once_def truthy_def format_str_def
          env_def msg_def)
  have "unsupported env (Some ''xx'')"
    by (simp add: unsupported_def truthy_def not_in_languages_def env_def)
  then have u: "unsupported env (supplied_from env msg)"
    by (simp only: sf)
  from translate_unsupported_language [of env msg] u obtain code where
    "supplied_from env msg = Some code"
    "translate env msg = [ReplyText (''Given language (`'' @ code @ ''`) is not available'')]"
    by blast
  then have "translate env msg = [ReplyText ''Given language (`xx`) is not available'']"
    by (simp add: sf)
  with u show ?thesis unfolding env_def msg_def by simp
qed

section \<open>Properties of the option extractor\<close>

lemma class_not_sep: "class_of_type ty c \<Longrightarrow> \<not> is_sep c"
  by (cases ty) (auto simp: is_sep_def is_digit_def is_word_def cp_def)

lemma takeWhile_run:
  assumes "\<forall>c\<in>set xs. P c" and "ys = [] \<or> \<not> P (hd ys)"
  shows "takeWhile P (xs @ ys) = xs" and "dropWhile P (xs @ ys) = ys"
proof -
  from assms(2) have "takeWhile P ys = []" "dropWhile P ys = ys" by (cases ys; simp)+
  with assms(1) show "takeWhile P (xs @ ys) = xs" "dropWhile P (xs @ ys) = ys"
    by (simp_all add: takeWhile_append2 dropWhile_append2)
qed

lemma match_name_matches:
  assumes "list_all2 item_matches (items p) nm"
  shows "match_name p (nm @ r) = Some r"
proof -
  from assms have len: "length (items p) = length nm" by (rule list_all2_lengthD)
  with assms show ?thesis by (simp add: match_name_def)
qed

lemma pattern_match_shape:
  assumes "list_all2 item_matches (items p) nm"
    and "seps \<noteq> []" and "\<forall>c\<in>set seps. is_sep c"
    and "vals \<noteq> []" and "\<forall>c\<in>set vals. class_of_type ty c"
    and "post = [] \<or> \<not> class_of_type ty (hd post)"
  shows "pattern_match p ty (nm @ seps @ vals @ post) = Some (length (nm @ seps @ vals))"
proof -
  from assms(1) have mn: "match_name p (nm @ seps @ vals @ post) = Some (seps @ vals @ post)"
    by (rule match_name_matches)
  from assms(1) have len: "length (items p) = length nm" by (rule list_all2_lengthD)
  from assms(4,5) have "\<not> is_sep (hd (vals @ post))"
    by (cases vals) (auto dest: class_not_sep)
  with assms(3) have s: "takeWhile is_sep (seps @ vals @ post) = seps"
    "dropWhile is_sep (seps @ vals @ post) = vals @ post"
    using takeWhile_run [of seps is_sep "vals @ post"] assms(4) by auto
  from assms(5,6) have v: "takeWhile (class_of_type ty) (vals @ post) = vals"
    using takeWhile_run [of vals "class_of_type ty" post] by auto
  show ?thesis
    using assms(2,4) by (simp add: pattern_match_def mn s v len Let_def)
qed

lemma match_at_Parsed: "parse_name name = Parsed p \<Longrightarrow> match_at name ty s = pattern_match p ty s"
  by (simp add: match_at_def)

lemma findall_Parsed: "parse_name name = Parsed p \<Longrightarrow> findall name ty s = pattern_findall p ty s"
  by (simp add: findall_def)

lemma re_sub_Parsed: "parse_name name = Parsed p \<Longrightarrow> re_sub name ty s = pattern_sub p ty s"
  by (simp add: re_sub_def)

lemma no_match_within_iff:
  "no_match_within name ty pre s \<longleftrightarrow>
     (\<forall>i<length pre. match_at name ty (drop i (pre @ s)) = None)"
  unfolding no_match_within_def list_all_iff by auto

lemma no_match_within_Cons:
  "no_match_within name ty (p # ps) s \<longleftrightarrow>
     match_at name ty (p # ps @ s) = None \<and> no_match_within name ty ps s"
proof
  assume a: "no_match_within name ty (p # ps) s"
  then have "match_at name ty (drop 0 ((p # ps) @ s)) = None"
    unfolding no_match_within_iff by (metis length_greater_0_conv list.distinct(1))
  moreover have "match_at name ty (drop i (ps @ s)) = None" if "i < length ps" for i
  proof -
    from that have "Suc i < length (p # ps)" by simp
    with a have "match_at name ty (drop (Suc i) ((p # ps) @ s)) = None"
      unfolding no_match_within_iff by blast
    then show ?thesis by simp
  qed
  ultimately show "match_at name ty (p # ps @ s) = None \<and> no_match_within name ty ps s"
    unfolding no_match_within_iff by simp
next
  assume a: "match_at name ty (p # ps @ s) = None \<and> no_match_within name ty ps s"
  have "match_at name ty (drop i ((p # ps) @ s)) = None" if "i < length (p # ps)" for i
  proof (cases i)
    case 0
    with a show ?thesis by simp
  next
    case (Suc j)
    with that have "j < length ps" by simp
    with a have "match_at name ty (drop j (ps @ s)) = None"
      unfolding no_match_within_iff by blast
    with Suc show ?thesis by simp
  qed
  then show "no_match_within name ty (p # ps) s"
    unfolding no_match_within_iff by blast
qed

lemma skip_prefix:
  assumes "parse_name name = Parsed p"
  shows "no_match_within name ty pre s \<Longrightarrow>
     pattern_findall p ty (pre @ s) = pattern_findall p ty s
     \<and> pattern_sub p ty (pre @ s) = pre @ pattern_sub p ty s
     \<and> remove_first_match name ty (pre @ s) = pre @ remove_first_match name ty s
     \<and> first_match name ty (pre @ s) = first_match name ty s"
proof (induction pre)
  case Nil
  show ?case by simp
next
  case (Cons c cs)
  from Cons.prems have n: "match_at name ty (c # cs @ s) = None" "no_match_within name ty cs s"
    by (simp_all add: no_match_within_Cons)
  from n(1) have m: "pattern_match p ty (c # cs @ s) = None"
    by (simp add: match_at_Parsed [OF assms])
  from Cons.IH [OF n(2)] n(1) m show ?case by simp
qed

lemma findall_Nil_sub: "pattern_findall p ty s = [] \<Longrightarrow> pattern_sub p ty s = s"
  by (induction p ty s rule: pattern_findall.induct) (auto split: option.splits)

lemma at_match:
  assumes "parse_name name = Parsed p"
    and "pattern_match p ty (m @ post) = Some (length m)"
  shows "pattern_findall p ty (m @ post) = found_of p m # pattern_findall p ty post"
    and "pattern_sub p ty (m @ post) = pattern_sub p ty post"
    and "remove_first_match name ty (m @ post) = post"
    and "first_match name ty (m @ post) = Some m"
proof -
  from assms(2) have "m @ post \<noteq> []"
    by (auto simp: pattern_match_def Let_def split: option.splits if_splits)
  then obtain c cs where c: "m @ post = c # cs" by (cases "m @ post") auto
  have t: "take (length m) (c # cs) = m" "drop (length m) (c # cs) = post"
    by (simp_all add: c [symmetric])
  from assms(2) have pm: "pattern_match p ty (c # cs) = Some (length m)" by (simp add: c)
  then have ma: "match_at name ty (c # cs) = Some (length m)"
    by (simp add: match_at_Parsed [OF assms(1)])
  show "pattern_findall p ty (m @ post) = found_of p m # pattern_findall p ty post"
    unfolding c by (simp add: pm t)
  show "pattern_sub p ty (m @ post) = pattern_sub p ty post"
    unfolding c by (simp add: pm t)
  show "remove_first_match name ty (m @ post) = post"
    unfolding c by (simp add: ma t)
  show "first_match name ty (m @ post) = Some m"
    unfolding c by (simp add: ma t)
qed

lemma first_match_findall:
  assumes "parse_name name = Parsed p" and "groups p = []"
  shows "first_match name ty s = Some m0 \<Longrightarrow> \<exists>ms. pattern_findall p ty s = FoundStr m0 # ms"
proof (induction s)
  case Nil
  then show ?case by simp
next
  case (Cons c cs)
  show ?case
  proof (cases "pattern_match p ty (c # cs)")
    case None
    then have "match_at name ty (c # cs) = None" by (simp add: match_at_Parsed [OF assms(1)])
    with Cons None show ?thesis by simp
  next
    case (Some n)
    then have "match_at name ty (c # cs) = Some n" by (simp add: match_at_Parsed [OF assms(1)])
    with Cons.prems have "m0 = take n (c # cs)" by simp
    with Some assms(2) show ?thesis by (simp add: found_of_def)
  qed
qed

lemma digit_runs_no_digit: "\<forall>c\<in>set s. \<not> is_digit c \<Longrightarrow> digit_runs (s @ r) = digit_runs r"
  by (induction s) auto

lemma digit_runs_run:
  assumes "ds \<noteq> []" and "\<forall>c\<in>set ds. is_digit c" and "r = [] \<or> \<not> is_digit (hd r)"
  shows "digit_runs (ds @ r) = ds # digit_runs r"
proof -
  from assms(1) obtain d ds' where d: "ds = d # ds'" by (cases ds) auto
  with assms(2) have "is_digit d" "\<forall>c\<in>set ds'. is_digit c" by auto
  moreover from assms(2,3) have "takeWhile is_digit (ds @ r) = ds"
    using takeWhile_run [of ds is_digit r] by auto
  moreover from \<open>\<forall>c\<in>set ds'. is_digit c\<close> assms(3) have "dropWhile is_digit (ds' @ r) = r"
    using takeWhile_run [of ds' is_digit r] by auto
  ultimately show ?thesis using d by simp
qed

lemma digit_runs_decompose:
  "digit_runs s =
     (case dropWhile (\<lambda>c. \<not> is_digit c) s of
        [] \<Rightarrow> []
      | d # r \<Rightarrow> takeWhile is_digit (d # r) # digit_runs (dropWhile is_digit (d # r)))"
proof (induction s)
  case Nil
  show ?case by simp
next
  case (Cons c cs)
  show ?case
  proof (cases "is_digit c")
    case True
    then show ?thesis by simp
  next
    case False
    then show ?thesis using Cons by simp
  qed
qed

lemma digit_runs_Nil_iff: "digit_runs s = [] \<longleftrightarrow> (\<forall>c\<in>set s. \<not> is_digit c)"
  by (induction s) auto

lemma digit_runs_first:
  assumes "digit_runs s = out # rest"
  shows "\<exists>pre post. s = pre @ out @ post \<and> (\<forall>c\<in>set pre. \<not> is_digit c) \<and> out \<noteq> []
           \<and> (\<forall>c\<in>set out. is_digit c) \<and> (post = [] \<or> \<not> is_digit (hd post))"
proof -
  let ?pre = "takeWhile (\<lambda>c. \<not> is_digit c) s"
  let ?r = "dropWhile (\<lambda>c. \<not> is_digit c) s"
  from assms obtain d r' where r: "?r = d # r'"
    using digit_runs_decompose [of s] by (cases ?r) auto
  with assms have out: "out = takeWhile is_digit ?r"
    using digit_runs_decompose [of s] by simp
  have d: "is_digit d" using r by (metis hd_dropWhile list.sel(1) list.distinct(1))
  let ?post = "dropWhile is_digit ?r"
  have "s = ?pre @ out @ ?post" by (simp add: out)
  moreover have "\<forall>c\<in>set ?pre. \<not> is_digit c" by (auto dest: set_takeWhileD)
  moreover have "out \<noteq> []" using d r by (simp add: out)
  moreover have "\<forall>c\<in>set out. is_digit c" by (auto simp: out dest: set_takeWhileD)
  moreover have "?post = [] \<or> \<not> is_digit (hd ?post)" by (metis hd_dropWhile)
  ultimately show ?thesis by blast
qed

lemma sep_not_digit: "is_sep c \<Longrightarrow> \<not> is_digit c"
  by (auto simp: is_sep_def is_digit_def cp_def)

text \<open>
  The outcome of a call whose first match is \<open>m\<close>, for a name without a group: the
  residual text is the text with every match deleted, and the value is cut from the first
  run of digits of \<open>m\<close>.
\<close>

lemma extract_at_first_match:
  assumes "parse_name name = Parsed p" and "groups p = []"
    and "pattern_findall p (type_or_str type0) text = FoundStr m # ms"
  shows "extract_option_from_string name text type0 =
           (case digit_runs m of
              [] \<Rightarrow> Inl IndexError
            | out # _ \<Rightarrow>
                if type_or_str type0 = PyInt
                then Inr (re_sub name (type_or_str type0) text, Some (IntValue (py_int out)))
                else Inr (re_sub name (type_or_str type0) text, Some (StrValue out)))"
  unfolding extract_option_from_string_def Let_def
  by (cases "digit_runs m") (simp_all add: assms(1,3) re_sub_Parsed [OF assms(1)])

text \<open>
  C3, as the code has it, for the names without a group. The text is cut as a prefix in
  which no match starts, then the first match, which is a piece that the name matches, at
  least one of the separators and a maximal run of characters of the kind, and then a
  rest. Whenever the call returns, the residual text is the prefix followed by the rest
  with every further match deleted from it as well; this is the text with exactly the
  first match removed when the rest has no match. With \<^verbatim>\<open>int\<close>, when the piece that
  the name matches has no digit and the run has at most 4300 digits, the call returns
  and the value is the run as an integer. With another kind the call returns a string
  with that residual text, or raises IndexError.
\<close>

theorem extract_option_removes_every_match:
  assumes "without_group name" and "name_matches name nm"
    and "seps \<noteq> []" and "\<forall>c\<in>set seps. is_sep c"
    and "vals \<noteq> []" and "\<forall>c\<in>set vals. class_of_type (type_or_str type0) c"
    and "post = [] \<or> \<not> class_of_type (type_or_str type0) (hd post)"
    and "no_match_within name (type_or_str type0) pre (nm @ seps @ vals @ post)"
  shows "first_match name (type_or_str type0) (pre @ nm @ seps @ vals @ post)
           = Some (nm @ seps @ vals)
       \<and> (\<forall>t v. extract_option_from_string name (pre @ nm @ seps @ vals @ post) type0 = Inr (t, v)
             \<longrightarrow> t = pre @ re_sub name (type_or_str type0) post)
       \<and> (findall name (type_or_str type0) post = [] \<longrightarrow>
             pre @ re_sub name (type_or_str type0) post
               = remove_first_match name (type_or_str type0) (pre @ nm @ seps @ vals @ post))
       \<and> (type_or_str type0 = PyInt \<and> (\<forall>c\<in>set nm. \<not> is_digit c) \<and> length vals \<le> 4300 \<longrightarrow>
             extract_option_from_string name (pre @ nm @ seps @ vals @ post) type0
               = Inr (pre @ re_sub name PyInt post, Some (IntValue (py_int vals))))
       \<and> (type_or_str type0 = PyStr \<longrightarrow>
             extract_option_from_string name (pre @ nm @ seps @ vals @ post) type0 = Inl IndexError
             \<or> (\<exists>out. extract_option_from_string name (pre @ nm @ seps @ vals @ post) type0
                        = Inr (pre @ re_sub name PyStr post, Some (StrValue out))))"
proof -
  define ty where "ty = type_or_str type0"
  define m where "m = nm @ seps @ vals"
  define inp where "inp = pre @ nm @ seps @ vals @ post"
  from assms(1) obtain p where p: "parse_name name = Parsed p" and g: "groups p = []"
    by (auto simp: without_group_def split: parsed.splits)
  from assms(2) p have nm: "list_all2 item_matches (items p) nm"
    by (simp add: name_matches_def)
  have "pattern_match p ty (nm @ seps @ vals @ post) = Some (length (nm @ seps @ vals))"
    using pattern_match_shape [OF nm assms(3,4,5)] assms(6,7) unfolding ty_def by simp
  then have pm: "pattern_match p ty (m @ post) = Some (length m)"
    by (simp add: m_def)
  have nw: "no_match_within name ty pre (m @ post)"
    using assms(8) by (simp add: ty_def m_def)
  have tx: "inp = pre @ m @ post" by (simp add: inp_def m_def)
  have f: "pattern_findall p ty inp = FoundStr m # pattern_findall p ty post"
    using skip_prefix [OF p nw] at_match(1) [OF p pm] by (simp add: tx found_of_def g)
  have r: "re_sub name ty inp = pre @ re_sub name ty post"
    using skip_prefix [OF p nw] at_match(2) [OF p pm] by (simp add: tx re_sub_Parsed [OF p])
  have rm: "remove_first_match name ty inp = pre @ post"
    using skip_prefix [OF p nw] at_match(3) [OF p pm] by (simp add: tx)
  have fm: "first_match name ty inp = Some m"
    using skip_prefix [OF p nw] at_match(4) [OF p pm] by (simp add: tx)
  have e: "extract_option_from_string name inp type0 =
             (case digit_runs m of
                [] \<Rightarrow> Inl IndexError
              | out # _ \<Rightarrow>
                  if ty = PyInt then Inr (pre @ re_sub name ty post, Some (IntValue (py_int out)))
                  else Inr (pre @ re_sub name ty post, Some (StrValue out)))"
    using extract_at_first_match [OF p g, of type0 inp m "pattern_findall p ty post"] f r
    unfolding ty_def by (cases "digit_runs m") auto
  have c2: "\<forall>t v. extract_option_from_string name inp type0 = Inr (t, v)
              \<longrightarrow> t = pre @ re_sub name ty post"
    unfolding e by (cases "digit_runs m") auto
  have c3: "findall name ty post = [] \<longrightarrow> pre @ re_sub name ty post = remove_first_match name ty inp"
    using findall_Nil_sub [of p ty post]
    by (simp add: rm findall_Parsed [OF p] re_sub_Parsed [OF p])
  have c4: "extract_option_from_string name inp type0
              = Inr (pre @ re_sub name PyInt post, Some (IntValue (py_int vals)))"
    if i: "ty = PyInt" and nd: "\<forall>c\<in>set nm. \<not> is_digit c"
  proof -
    from i assms(6) have dv: "\<forall>c\<in>set vals. is_digit c" by (simp add: ty_def)
    from nd assms(4) have "\<forall>c\<in>set (nm @ seps). \<not> is_digit c"
      by (auto dest: sep_not_digit)
    then have "digit_runs ((nm @ seps) @ vals @ []) = digit_runs (vals @ [])"
      by (rule digit_runs_no_digit)
    moreover have "digit_runs (vals @ []) = vals # digit_runs []"
      using assms(5) dv by (intro digit_runs_run) auto
    ultimately have "digit_runs m = [vals]" by (simp add: m_def)
    with i show ?thesis by (simp add: e)
  qed
  have c5: "extract_option_from_string name inp type0 = Inl IndexError
            \<or> (\<exists>out. extract_option_from_string name inp type0
                       = Inr (pre @ re_sub name PyStr post, Some (StrValue out)))"
    if s: "ty = PyStr"
    unfolding e using s by (cases "digit_runs m") auto
  from fm c2 c3 c4 c5 show ?thesis
    unfolding ty_def m_def inp_def by blast
qed

theorem extract_option_removes_every_match_witness:
  "extract_option_from_string ''page'' ''cat Page=123 dog'' (Some PyInt)
     = Inr (''cat  dog'', Some (IntValue 123))
   \<and> first_match ''page'' PyInt ''cat Page=123 dog'' = Some ''Page=123''
   \<and> remove_first_match ''page'' PyInt ''cat Page=123 dog'' = ''cat  dog''"
proof -
  have t: "type_or_str (Some PyInt) = PyInt" by (simp add: type_or_str_def)
  have 1: "without_group ''page''" by code_simp
  have 2: "name_matches ''page'' ''Page''" by code_simp
  have 3: "''='' \<noteq> []" by simp
  have 4: "\<forall>c\<in>set ''=''. is_sep c" by code_simp
  have 5: "''123'' \<noteq> []" by simp
  have 6: "\<forall>c\<in>set ''123''. class_of_type (type_or_str (Some PyInt)) c" unfolding t by code_simp
  have 7: "'' dog'' = [] \<or> \<not> class_of_type (type_or_str (Some PyInt)) (hd '' dog'')"
    unfolding t by code_simp
  have 8: "no_match_within ''page'' (type_or_str (Some PyInt)) ''cat ''
             (''Page'' @ ''='' @ ''123'' @ '' dog'')"
    unfolding t by code_simp
  have 9: "findall ''page'' PyInt '' dog'' = []" by code_simp
  have 10: "py_int ''123'' = 123" by code_simp
  have 11: "\<forall>c\<in>set ''Page''. \<not> is_digit c" by code_simp
  have 12: "re_sub ''page'' PyInt '' dog'' = '' dog''" by code_simp
  have 13: "length ''123'' \<le> 4300" by simp
  from extract_option_removes_every_match [OF 1 2 3 4 5 6 7 8] 9 10 11 12 13 t
  show ?thesis by simp
qed

text \<open>
  C3 as the specification words it fails when the option occurs twice: the substitution
  of line 139 has no count, so both occurrences leave the text, while the value is that
  of the first. It fails also, with \<^verbatim>\<open>int\<close>, when the first match has a digit before its
  value, in a name with a digit or under a dot of the name, since the value is cut from
  the first run of digits of the whole match; and when the name has a group, since
  \<^verbatim>\<open>findall\<close> then returns the text of the group and not the match.
\<close>

theorem extract_option_all_matches_counterexample:
  "extract_option_from_string ''page'' ''page=1 page=2'' (Some PyInt) = Inr ('' '', Some (IntValue 1))
   \<and> first_match ''page'' PyInt ''page=1 page=2'' = Some ''page=1''
   \<and> remove_first_match ''page'' PyInt ''page=1 page=2'' = '' page=2''
   \<and> first_match ''p2'' PyInt ''p2=5'' = Some ''p2=5''
   \<and> extract_option_from_string ''p2'' ''p2=5'' (Some PyInt) = Inr ([], Some (IntValue 2))
   \<and> first_match ''p.ge'' PyInt ''p1ge=5'' = Some ''p1ge=5''
   \<and> extract_option_from_string ''p.ge'' ''p1ge=5'' (Some PyInt) = Inr ([], Some (IntValue 1))
   \<and> first_match ''(p)age'' PyInt ''page=5'' = Some ''page=5''
   \<and> extract_option_from_string ''(p)age'' ''page=5'' (Some PyInt) = Inl IndexError"
  by code_simp

text \<open>
  C10 as it is worded fails for a name with a group: \<^verbatim>\<open>findall\<close> then returns the text
  of the group, or a tuple of texts when there are several, and the digits of the
  matched substring outside of them are not seen.
\<close>

theorem extract_option_group_counterexample:
  "first_match ''(l)f'' PyStr ''lf=5'' = Some ''lf=5''
   \<and> digit_runs ''lf=5'' = [''5'']
   \<and> extract_option_from_string ''(l)f'' ''lf=5'' None = Inl IndexError
   \<and> first_match ''(l)(f)'' PyStr ''lf=5'' = Some ''lf=5''
   \<and> extract_option_from_string ''(l)(f)'' ''lf=5'' None = Inl TypeError"
  by code_simp

text \<open>
  C10, for the names without a group. When the pattern matches and the type is not
  \<^verbatim>\<open>int\<close>, the value is the first maximal run of digits of the first match, not the
  token that was matched; and when the match has no digit the call raises IndexError.
\<close>

theorem extract_option_str_digits:
  assumes "without_group name" and "first_match name PyStr text = Some m0"
    and "type0 = None \<or> type0 = Some PyStr"
  shows "if \<exists>c\<in>set m0. is_digit c
         then \<exists>pre out post. m0 = pre @ out @ post \<and> (\<forall>c\<in>set pre. \<not> is_digit c)
                \<and> out \<noteq> [] \<and> (\<forall>c\<in>set out. is_digit c) \<and> (post = [] \<or> \<not> is_digit (hd post))
                \<and> extract_option_from_string name text type0
                     = Inr (re_sub name PyStr text, Some (StrValue out))
         else extract_option_from_string name text type0 = Inl IndexError"
proof -
  from assms(3) have ty: "type_or_str type0 = PyStr" by (auto simp: type_or_str_def)
  from assms(1) obtain p where p: "parse_name name = Parsed p" and g: "groups p = []"
    by (auto simp: without_group_def split: parsed.splits)
  from first_match_findall [OF p g assms(2)] obtain ms where
    f: "pattern_findall p PyStr text = FoundStr m0 # ms" by blast
  have e: "extract_option_from_string name text type0 =
             (case digit_runs m0 of
                [] \<Rightarrow> Inl IndexError
              | out # _ \<Rightarrow> Inr (re_sub name PyStr text, Some (StrValue out)))"
    using extract_at_first_match [OF p g, of type0 _ m0 ms] f
    by (cases "digit_runs m0") (simp_all add: ty)
  show ?thesis
  proof (cases "digit_runs m0")
    case Nil
    then have "\<not> (\<exists>c\<in>set m0. is_digit c)" by (simp add: digit_runs_Nil_iff)
    moreover have "extract_option_from_string name text type0 = Inl IndexError"
      by (simp add: e Nil)
    ultimately show ?thesis by simp
  next
    case (Cons out rest)
    then have "\<exists>c\<in>set m0. is_digit c" using digit_runs_Nil_iff [of m0] by auto
    moreover have "extract_option_from_string name text type0
                     = Inr (re_sub name PyStr text, Some (StrValue out))"
      by (simp add: e Cons)
    moreover note digit_runs_first [OF Cons]
    ultimately show ?thesis by auto
  qed
qed

theorem extract_option_str_digits_witness:
  "extract_option_from_string ''lf'' ''hello lf=de'' None = Inl IndexError
   \<and> extract_option_from_string ''lf'' ''hello lf=d3e45 x'' (Some PyStr)
       = Inr (''hello  x'', Some (StrValue ''3''))"
proof -
  have w: "without_group ''lf''" by code_simp
  have f: "first_match ''lf'' PyStr ''hello lf=de'' = Some ''lf=de''" by code_simp
  have n: "\<not> (\<exists>c\<in>set ''lf=de''. is_digit c)" by code_simp
  have g: "first_match ''lf'' PyStr ''hello lf=d3e45 x'' = Some ''lf=d3e45''" by code_simp
  have d: "\<exists>c\<in>set ''lf=d3e45''. is_digit c" by code_simp
  have e: "extract_option_from_string ''lf'' ''hello lf=d3e45 x'' (Some PyStr)
             = Inr (''hello  x'', Some (StrValue ''3''))" by code_simp
  from extract_option_str_digits [OF w f, of None] n
  have "extract_option_from_string ''lf'' ''hello lf=de'' None = Inl IndexError" by simp
  moreover from extract_option_str_digits [OF w g, of "Some PyStr"] d
  have "\<exists>out. extract_option_from_string ''lf'' ''hello lf=d3e45 x'' (Some PyStr)
                = Inr (re_sub ''lf'' PyStr ''hello lf=d3e45 x'', Some (StrValue out))"
    by auto
  ultimately show ?thesis using e by simp
qed

section \<open>Properties of the send loop\<close>

lemma iterations_send_loop:
  "media_list (iterations env k st) = [] \<Longrightarrow> send_loop env st = Some (iterations env k st)"
proof (induction k arbitrary: st)
  case 0
  then show ?case by (simp add: send_loop.simps)
next
  case (Suc k)
  show ?case
  proof (cases "media_list st = []")
    case True
    then show ?thesis by (simp add: send_loop.simps)
  next
    case False
    with Suc.prems have "media_list (iterations env k (loop_body env st)) = []" by simp
    then have "send_loop env (loop_body env st) = Some (iterations env k (loop_body env st))"
      by (rule Suc.IH)
    with False show ?thesis by (subst send_loop.simps) simp
  qed
qed

lemma send_loop_iterations:
  assumes "send_loop env st = Some st'"
  shows "\<exists>k. iterations env k st = st' \<and> media_list st' = []"
proof (rule send_loop.raw_induct
    [where P = "\<lambda>env st st'. \<exists>k. iterations env k st = st' \<and> media_list st' = []", OF _ assms])
  fix f env st st'
  assume ih: "\<And>e s y. f e s = Some y \<Longrightarrow> \<exists>k. iterations e k s = y \<and> media_list y = []"
    and eq: "(if media_list st \<noteq> [] then f env (loop_body env st) else Some st) = Some st'"
  show "\<exists>k. iterations env k st = st' \<and> media_list st' = []"
  proof (cases "media_list st = []")
    case True
    with eq have "st' = st" by simp
    with True have "iterations env 0 st = st' \<and> media_list st' = []" by simp
    then show ?thesis by blast
  next
    case False
    with eq have "f env (loop_body env st) = Some st'" by simp
    then obtain k where "iterations env k (loop_body env st) = st'" "media_list st' = []"
      using ih by blast
    with False have "iterations env (Suc k) st = st' \<and> media_list st' = []" by simp
    then show ?thesis by blast
  qed
qed

lemma send_loop_None:
  "send_loop env st = None \<longleftrightarrow> (\<forall>k. media_list (iterations env k st) \<noteq> [])"
proof
  assume n: "send_loop env st = None"
  show "\<forall>k. media_list (iterations env k st) \<noteq> []"
  proof
    fix k
    show "media_list (iterations env k st) \<noteq> []"
      using iterations_send_loop [of env k st] n by auto
  qed
next
  assume a: "\<forall>k. media_list (iterations env k st) \<noteq> []"
  show "send_loop env st = None"
  proof (cases "send_loop env st")
    case None
    then show ?thesis .
  next
    case (Some st')
    then obtain k where "iterations env k st = st'" "media_list st' = []"
      using send_loop_iterations by blast
    with a show ?thesis by auto
  qed
qed

lemma probe_result:
  "\<exists>seg. probe env ms (tr, errs, el)
           = (tr @ seg, errs + int (length (failed_items ms (head_statuses seg))),
              el @ failed_items ms (head_statuses seg))
         \<and> probed seg = map media ms
         \<and> length (head_statuses seg) = length ms
         \<and> (\<forall>ev\<in>set seg. attempted ev = {})
         \<and> sent_items seg = []
         \<and> list_all2 (\<lambda>m s. \<exists>tr'. s = requests_head env tr' (media m)) ms (head_statuses seg)"
proof (induction ms arbitrary: tr errs el)
  case Nil
  have "probe env [] (tr, errs, el) = (tr @ [], errs + int (length (failed_items [] (head_statuses []))),
          el @ failed_items [] (head_statuses []))"
    by (simp add: failed_items_def)
  then show ?case by (intro exI [of _ "[]"]) simp
next
  case (Cons m ms)
  let ?tr1 = "tr @ [SendChatAction TYPING]"
  let ?s = "requests_head env ?tr1 (media m)"
  let ?tr2 = "?tr1 @ [Head (media m) ?s]"
  let ?bad = "?s > 399 \<or> ?s < 200"
  let ?errs = "if ?bad then errs + 1 else errs"
  let ?el = "if ?bad then el @ [m] else el"
  have step: "probe env (m # ms) (tr, errs, el) = probe env ms (?tr2, ?errs, ?el)"
    by (simp add: Let_def)
  from Cons.IH [of ?tr2 ?errs ?el] obtain seg where
    p: "probe env ms (?tr2, ?errs, ?el)
          = (?tr2 @ seg, ?errs + int (length (failed_items ms (head_statuses seg))),
             ?el @ failed_items ms (head_statuses seg))"
    and q: "probed seg = map media ms" "length (head_statuses seg) = length ms"
      "\<forall>ev\<in>set seg. attempted ev = {}" "sent_items seg = []"
    and h: "list_all2 (\<lambda>m s. \<exists>tr'. s = requests_head env tr' (media m)) ms (head_statuses seg)"
    by blast
  let ?seg = "[SendChatAction TYPING, Head (media m) ?s] @ seg"
  have f: "failed_items (m # ms) (head_statuses ?seg)
             = (if ?bad then [m] else []) @ failed_items ms (head_statuses seg)"
    by (simp add: failed_items_def)
  have "probe env (m # ms) (tr, errs, el)
          = (tr @ ?seg, errs + int (length (failed_items (m # ms) (head_statuses ?seg))),
             el @ failed_items (m # ms) (head_statuses ?seg))"
    unfolding step p f by simp
  moreover have "probed ?seg = map media (m # ms)" using q by simp
  moreover have "length (head_statuses ?seg) = length (m # ms)" using q by simp
  moreover have "\<forall>ev\<in>set ?seg. attempted ev = {}" using q by simp
  moreover have "sent_items ?seg = []" using q by simp
  moreover have "list_all2 (\<lambda>m s. \<exists>tr'. s = requests_head env tr' (media m)) (m # ms) (head_statuses ?seg)"
    using h by auto
  ultimately show ?case by blast
qed

lemma set_failed_items: "set (failed_items batch statuses) \<subseteq> set batch"
  unfolding failed_items_def by (auto dest: set_zip_leftD)

lemma set_set_difference:
  "set_order_permutes env \<Longrightarrow> set (set_difference env ms el) = set ms - set el"
  by (auto simp: set_order_permutes_def set_difference_def)

text \<open>One iteration that starts with a rejected media group.\<close>

lemma loop_body_rejected:
  assumes "length (media_list st) > 1"
    and "send_media_group env (trace st @ [SendChatAction UPLOAD_PHOTO]) (take 10 (media_list st))
           = BadRequest"
  shows "\<exists>seg. loop_body env st =
           \<lparr>media_list = set_difference env (media_list st)
                            (failed_items (take 10 (media_list st)) (head_statuses seg)),
            errors = errors st + int (length (failed_items (take 10 (media_list st)) (head_statuses seg))),
            trace = trace st @ [SendChatAction UPLOAD_PHOTO,
                                SendMediaGroup (take 10 (media_list st)) BadRequest] @ seg\<rparr>
         \<and> probed seg = map media (take 10 (media_list st))
         \<and> length (head_statuses seg) = length (take 10 (media_list st))
         \<and> (\<forall>ev\<in>set seg. attempted ev = {})
         \<and> sent_items seg = []
         \<and> list_all2 (\<lambda>m s. \<exists>tr'. s = requests_head env tr' (media m)) (take 10 (media_list st)) (head_statuses seg)"
proof -
  let ?tr = "trace st @ [SendChatAction UPLOAD_PHOTO]"
  let ?batch = "take 10 (media_list st)"
  from probe_result [of env ?batch "?tr @ [SendMediaGroup ?batch BadRequest]" "errors st" "[]"]
  obtain seg where
    p: "probe env ?batch (?tr @ [SendMediaGroup ?batch BadRequest], errors st, [])
          = ((?tr @ [SendMediaGroup ?batch BadRequest]) @ seg,
             errors st + int (length (failed_items ?batch (head_statuses seg))),
             [] @ failed_items ?batch (head_statuses seg))"
    and q: "probed seg = map media ?batch" "length (head_statuses seg) = length ?batch"
      "\<forall>ev\<in>set seg. attempted ev = {}" "sent_items seg = []"
      "list_all2 (\<lambda>m s. \<exists>tr'. s = requests_head env tr' (media m)) ?batch (head_statuses seg)"
    by blast
  have "loop_body env st =
           \<lparr>media_list = set_difference env (media_list st) (failed_items ?batch (head_statuses seg)),
            errors = errors st + int (length (failed_items ?batch (head_statuses seg))),
            trace = trace st @ [SendChatAction UPLOAD_PHOTO, SendMediaGroup ?batch BadRequest] @ seg\<rparr>"
    using assms unfolding loop_body_def Let_def p by simp
  with q show ?thesis by blast
qed

text \<open>Every iteration appends events, attempts pending items only, and adds no item.\<close>

lemma loop_body_step:
  assumes "set_order_permutes env"
  shows "\<exists>seg. trace (loop_body env st) = trace st @ seg
           \<and> (\<forall>ev\<in>set seg. attempted ev \<subseteq> set (media_list st))
           \<and> set (media_list (loop_body env st)) \<subseteq> set (media_list st)
           \<and> (\<forall>m\<in>set (media_list st). m \<notin> set (media_list (loop_body env st)) \<longrightarrow>
                 (\<exists>ev\<in>set seg. m \<in> attempted ev))"
proof (cases "length (media_list st) > 1")
  case True
  let ?tr = "trace st @ [SendChatAction UPLOAD_PHOTO]"
  let ?batch = "take 10 (media_list st)"
  show ?thesis
  proof (cases "send_media_group env ?tr ?batch")
    case Sent
    let ?seg = "[SendChatAction UPLOAD_PHOTO, SendMediaGroup ?batch Sent]"
    have l: "loop_body env st = st\<lparr>media_list := drop 10 (media_list st), trace := trace st @ ?seg\<rparr>"
      using True Sent by (simp add: loop_body_def Let_def)
    have "set ?batch \<subseteq> set (media_list st)" by (rule set_take_subset)
    moreover have "set (drop 10 (media_list st)) \<subseteq> set (media_list st)" by (rule set_drop_subset)
    moreover have "m \<in> set ?batch" if "m \<in> set (media_list st)" "m \<notin> set (drop 10 (media_list st))" for m
    proof -
      from that(1) have "m \<in> set (take 10 (media_list st) @ drop 10 (media_list st))" by simp
      with that(2) show ?thesis by (simp del: append_take_drop_id)
    qed
    ultimately show ?thesis unfolding l by (intro exI [of _ ?seg]) auto
  next
    case BadRequest
    from loop_body_rejected [OF True BadRequest] obtain seg where
      l: "loop_body env st =
           \<lparr>media_list = set_difference env (media_list st) (failed_items ?batch (head_statuses seg)),
            errors = errors st + int (length (failed_items ?batch (head_statuses seg))),
            trace = trace st @ [SendChatAction UPLOAD_PHOTO, SendMediaGroup ?batch BadRequest] @ seg\<rparr>"
      and q: "\<forall>ev\<in>set seg. attempted ev = {}"
      by blast
    let ?seg = "[SendChatAction UPLOAD_PHOTO, SendMediaGroup ?batch BadRequest] @ seg"
    have b: "set ?batch \<subseteq> set (media_list st)" by (rule set_take_subset)
    have d: "set (set_difference env (media_list st) (failed_items ?batch (head_statuses seg)))
               = set (media_list st) - set (failed_items ?batch (head_statuses seg))"
      using assms by (rule set_set_difference)
    have "\<forall>ev\<in>set ?seg. attempted ev \<subseteq> set (media_list st)" using b q by auto
    moreover have "\<exists>ev\<in>set ?seg. m \<in> attempted ev"
      if "m \<in> set (media_list st)" "m \<notin> set (media_list (loop_body env st))" for m
    proof -
      from that have "m \<in> set (failed_items ?batch (head_statuses seg))" unfolding l by (simp add: d)
      then have "m \<in> set ?batch" using set_failed_items by blast
      then show ?thesis by simp
    qed
    moreover have "trace (loop_body env st) = trace st @ ?seg" unfolding l by simp
    moreover have "set (media_list (loop_body env st)) \<subseteq> set (media_list st)"
      unfolding l by (auto simp: d)
    ultimately show ?thesis by blast
  qed
next
  case False
  show ?thesis
  proof (cases "media_list st")
    case Nil
    then have "loop_body env st = st\<lparr>trace := trace st\<rparr> \<or> loop_body env st = st"
      by (simp add: loop_body_def Let_def)
    then have "loop_body env st = st" by auto
    with Nil show ?thesis by (intro exI [of _ "[]"]) simp
  next
    case (Cons m rest)
    with False have rest: "rest = []" by simp
    let ?tr = "trace st @ [SendChatAction UPLOAD_PHOTO]"
    let ?r = "send_photo env ?tr (media m) (caption m)"
    let ?seg = "[SendChatAction UPLOAD_PHOTO, SendPhoto m ?r]"
    have l: "loop_body env st =
               \<lparr>media_list = rest, errors = (if ?r = BadRequest then errors st + 1 else errors st),
                trace = trace st @ ?seg\<rparr>"
      using Cons rest by (simp add: loop_body_def Let_def)
    show ?thesis unfolding l using Cons rest by (intro exI [of _ ?seg]) simp
  qed
qed

lemma iterations_step:
  assumes "set_order_permutes env"
  shows "\<exists>seg. trace (iterations env k st) = trace st @ seg
           \<and> (\<forall>ev\<in>set seg. attempted ev \<subseteq> set (media_list st))
           \<and> set (media_list (iterations env k st)) \<subseteq> set (media_list st)
           \<and> (\<forall>m\<in>set (media_list st). m \<notin> set (media_list (iterations env k st)) \<longrightarrow>
                 (\<exists>ev\<in>set seg. m \<in> attempted ev))"
proof (induction k arbitrary: st)
  case 0
  show ?case by (intro exI [of _ "[]"]) simp
next
  case (Suc k)
  show ?case
  proof (cases "media_list st = []")
    case True
    then show ?thesis by (intro exI [of _ "[]"]) simp
  next
    case False
    let ?st1 = "loop_body env st"
    from loop_body_step [OF assms, of st] obtain seg1 where
      a: "trace ?st1 = trace st @ seg1"
        "\<forall>ev\<in>set seg1. attempted ev \<subseteq> set (media_list st)"
        "set (media_list ?st1) \<subseteq> set (media_list st)"
        "\<forall>m\<in>set (media_list st). m \<notin> set (media_list ?st1) \<longrightarrow> (\<exists>ev\<in>set seg1. m \<in> attempted ev)"
      by blast
    from Suc.IH [of ?st1] obtain seg2 where
      b: "trace (iterations env k ?st1) = trace ?st1 @ seg2"
        "\<forall>ev\<in>set seg2. attempted ev \<subseteq> set (media_list ?st1)"
        "set (media_list (iterations env k ?st1)) \<subseteq> set (media_list ?st1)"
        "\<forall>m\<in>set (media_list ?st1). m \<notin> set (media_list (iterations env k ?st1)) \<longrightarrow>
            (\<exists>ev\<in>set seg2. m \<in> attempted ev)"
      by blast
    have i: "iterations env (Suc k) st = iterations env k ?st1" using False by simp
    have "trace (iterations env (Suc k) st) = trace st @ (seg1 @ seg2)"
      unfolding i using a(1) b(1) by simp
    moreover have "\<forall>ev\<in>set (seg1 @ seg2). attempted ev \<subseteq> set (media_list st)"
      using a(2,3) b(2) by auto
    moreover have "set (media_list (iterations env (Suc k) st)) \<subseteq> set (media_list st)"
      unfolding i using a(3) b(3) by blast
    moreover have "\<forall>m\<in>set (media_list st). m \<notin> set (media_list (iterations env (Suc k) st)) \<longrightarrow>
                     (\<exists>ev\<in>set (seg1 @ seg2). m \<in> attempted ev)"
      unfolding i using a(4) b(4) by (metis Un_iff set_append)
    ultimately show ?thesis by blast
  qed
qed

text \<open>
  When no media group is rejected the loop returns, nothing is probed, and the items go
  out in the order of the list, ten at a time: the order is lost on the recovery path
  only, and so is the end of the loop.
\<close>

lemma send_loop_in_order:
  assumes "\<forall>tr ms. send_media_group env tr ms = Sent"
  shows "\<exists>st' seg. send_loop env st = Some st' \<and> trace st' = trace st @ seg
           \<and> attempt_items seg = media_list st \<and> probed seg = []"
proof (induction "length (media_list st)" arbitrary: st rule: less_induct)
  case less
  show ?case
  proof (cases "media_list st")
    case Nil
    then have "send_loop env st = Some st" by (simp add: send_loop.simps)
    with Nil show ?thesis by (intro exI [of _ st] exI [of _ "[]"]) simp
  next
    case (Cons m rest)
    let ?tr = "trace st @ [SendChatAction UPLOAD_PHOTO]"
    show ?thesis
    proof (cases "length (media_list st) > 1")
      case True
      let ?batch = "take 10 (media_list st)"
      let ?st1 = "st\<lparr>media_list := drop 10 (media_list st),
                     trace := ?tr @ [SendMediaGroup ?batch Sent]\<rparr>"
      have l: "loop_body env st = ?st1"
        using True assms by (simp add: loop_body_def Let_def)
      have "length (media_list ?st1) < length (media_list st)" using Cons by simp
      from less [OF this] obtain st' seg where
        r: "send_loop env ?st1 = Some st'" "trace st' = trace ?st1 @ seg"
           "attempt_items seg = media_list ?st1" "probed seg = []"
        by blast
      let ?seg = "[SendChatAction UPLOAD_PHOTO, SendMediaGroup ?batch Sent] @ seg"
      have "send_loop env st = Some st'"
        using Cons r(1) l by (subst send_loop.simps) simp
      moreover have "trace st' = trace st @ ?seg" using r(2) by simp
      moreover have "attempt_items ?seg = media_list st" using r(3) by simp
      moreover have "probed ?seg = []" using r(4) by simp
      ultimately show ?thesis by blast
    next
      case False
      with Cons have rest: "rest = []" by simp
      let ?r = "send_photo env ?tr (media m) (caption m)"
      let ?st1 = "\<lparr>media_list = [], errors = (if ?r = BadRequest then errors st + 1 else errors st),
                   trace = ?tr @ [SendPhoto m ?r]\<rparr>"
      have l: "loop_body env st = ?st1"
        using Cons rest by (simp add: loop_body_def Let_def)
      have "send_loop env ?st1 = Some ?st1" by (subst send_loop.simps) simp
      then have "send_loop env st = Some ?st1"
        using Cons l by (subst send_loop.simps) simp
      moreover have "trace ?st1 = trace st @ [SendChatAction UPLOAD_PHOTO, SendPhoto m ?r]"
        by simp
      moreover have "attempt_items [SendChatAction UPLOAD_PHOTO, SendPhoto m ?r] = media_list st"
        using Cons rest by simp
      moreover have "probed [SendChatAction UPLOAD_PHOTO, SendPhoto m ?r] = []" by simp
      ultimately show ?thesis by blast
    qed
  qed
qed

text \<open>
  What holds of a rejected batch for every chat, host and order of the set. An iteration
  whose media group of more than one item is rejected probes exactly the items of that
  batch, in order; it counts the items whose status is outside of 200 to 399 and takes
  them, and nothing else, out of the pending list; no later send attempt holds one of
  them; and if the loop returns, every other item that was pending has been in a later
  send attempt. The statuses are the answers of \<^verbatim>\<open>requests.head\<close> for the URLs of the
  batch, in its order.
\<close>

lemma rejected_batch_probed:
  assumes "set_order_permutes env"
    and "length (media_list st) > 1"
    and "send_media_group env (trace st @ [SendChatAction UPLOAD_PHOTO]) (take 10 (media_list st))
           = BadRequest"
  shows "\<exists>seg.
           trace (loop_body env st)
             = trace st @ [SendChatAction UPLOAD_PHOTO,
                           SendMediaGroup (take 10 (media_list st)) BadRequest] @ seg
         \<and> probed seg = map media (take 10 (media_list st))
         \<and> list_all2 (\<lambda>m s. \<exists>tr'. s = requests_head env tr' (media m)) (take 10 (media_list st)) (head_statuses seg)
         \<and> errors (loop_body env st)
             = errors st + int (length (failed_items (take 10 (media_list st)) (head_statuses seg)))
         \<and> set (media_list (loop_body env st))
             = set (media_list st) - set (failed_items (take 10 (media_list st)) (head_statuses seg))
         \<and> (\<forall>k. \<forall>ev\<in>set (events_since (loop_body env st) (iterations env k (loop_body env st))).
               attempted ev \<inter> set (failed_items (take 10 (media_list st)) (head_statuses seg)) = {})
         \<and> (\<forall>st'. send_loop env (loop_body env st) = Some st' \<longrightarrow>
               (\<forall>m\<in>set (media_list st)
                     - set (failed_items (take 10 (media_list st)) (head_statuses seg)).
                  \<exists>ev\<in>set (events_since (loop_body env st) st'). m \<in> attempted ev))"
proof -
  let ?batch = "take 10 (media_list st)"
  let ?st1 = "loop_body env st"
  from loop_body_rejected [OF assms(2,3)] obtain seg where
    l: "?st1 =
           \<lparr>media_list = set_difference env (media_list st) (failed_items ?batch (head_statuses seg)),
            errors = errors st + int (length (failed_items ?batch (head_statuses seg))),
            trace = trace st @ [SendChatAction UPLOAD_PHOTO, SendMediaGroup ?batch BadRequest] @ seg\<rparr>"
    and q: "probed seg = map media ?batch"
      "list_all2 (\<lambda>m s. \<exists>tr'. s = requests_head env tr' (media m)) ?batch (head_statuses seg)"
    by blast
  let ?failed = "failed_items ?batch (head_statuses seg)"
  have t: "trace ?st1 = trace st @ [SendChatAction UPLOAD_PHOTO, SendMediaGroup ?batch BadRequest] @ seg"
    by (subst l) simp
  have e: "errors ?st1 = errors st + int (length ?failed)"
    by (subst l) simp
  have "media_list ?st1 = set_difference env (media_list st) ?failed"
    by (subst l) simp
  then have m: "set (media_list ?st1) = set (media_list st) - set ?failed"
    using set_set_difference [OF assms(1)] by simp
  have later: "\<forall>ev\<in>set (events_since ?st1 (iterations env k ?st1)). attempted ev \<inter> set ?failed = {}"
    for k
  proof -
    from iterations_step [OF assms(1), of k ?st1] obtain seg2 where
      a: "trace (iterations env k ?st1) = trace ?st1 @ seg2"
        "\<forall>ev\<in>set seg2. attempted ev \<subseteq> set (media_list ?st1)"
      by blast
    from a(1) have "events_since ?st1 (iterations env k ?st1) = seg2"
      by (simp add: events_since_def)
    with a(2) m show ?thesis by auto
  qed
  have retried: "\<exists>ev\<in>set (events_since ?st1 st'). x \<in> attempted ev"
    if r: "send_loop env ?st1 = Some st'" and x: "x \<in> set (media_list st) - set ?failed" for st' x
  proof -
    from send_loop_iterations [OF r] obtain k where
      k: "iterations env k ?st1 = st'" "media_list st' = []"
      by blast
    from iterations_step [OF assms(1), of k ?st1] obtain seg2 where
      a: "trace (iterations env k ?st1) = trace ?st1 @ seg2"
        "\<forall>m\<in>set (media_list ?st1). m \<notin> set (media_list (iterations env k ?st1)) \<longrightarrow>
            (\<exists>ev\<in>set seg2. m \<in> attempted ev)"
      by blast
    from a(1) k(1) have "events_since ?st1 st' = seg2"
      by (simp add: events_since_def)
    moreover from x m have "x \<in> set (media_list ?st1)" by simp
    ultimately show ?thesis using a(2) k by auto
  qed
  from t q e m later retried show ?thesis by blast
qed

lemma probe_all_good:
  "probe stuck12_env xs (tr, e, el)
     = (tr @ concat (map (\<lambda>m. [SendChatAction TYPING, Head (media m) 200]) xs), e, el)"
  by (induction xs arbitrary: tr) (simp_all add: stuck12_env_def Let_def)

lemma stuck12_body:
  assumes "distinct (media_list st)" and "length (media_list st) > 1"
  shows "media_list (loop_body stuck12_env st) = media_list st"
    and "errors (loop_body stuck12_env st) = errors st"
    and "trace (loop_body stuck12_env st) = trace st @ rejected_round (media_list st)"
proof -
  have r: "send_media_group stuck12_env tr ms = BadRequest" for tr ms
    by (simp add: stuck12_env_def)
  have o: "set_order stuck12_env xs = xs" for xs
    by (simp add: stuck12_env_def)
  have l: "loop_body stuck12_env st =
             \<lparr>media_list = media_list st, errors = errors st,
              trace = trace st @ rejected_round (media_list st)\<rparr>"
    using assms
    by (simp add: loop_body_def Let_def r o probe_all_good set_difference_def rejected_round_def
                  distinct_remdups_id)
  show "media_list (loop_body stuck12_env st) = media_list st"
    "errors (loop_body stuck12_env st) = errors st"
    "trace (loop_body stuck12_env st) = trace st @ rejected_round (media_list st)"
    by (simp_all add: l)
qed

lemma stuck12_iterations:
  assumes "distinct ms" and "length ms > 1"
  shows "media_list st = ms \<Longrightarrow>
           media_list (iterations stuck12_env k st) = ms
           \<and> errors (iterations stuck12_env k st) = errors st
           \<and> trace (iterations stuck12_env k st) = trace st @ concat (replicate k (rejected_round ms))"
proof (induction k arbitrary: st)
  case 0
  then show ?case by simp
next
  case (Suc k)
  from Suc.prems assms have d: "distinct (media_list st)" "length (media_list st) > 1" by simp_all
  note b = stuck12_body [OF d]
  from b(1) Suc.prems have "media_list (loop_body stuck12_env st) = ms" by simp
  from Suc.IH [OF this] b Suc.prems assms(2) show ?case by auto
qed

lemma attempt_items_append: "attempt_items (xs @ ys) = attempt_items xs @ attempt_items ys"
  by (induction xs rule: attempt_items.induct) simp_all

lemma head_statuses_append: "head_statuses (xs @ ys) = head_statuses xs @ head_statuses ys"
  by (induction xs rule: head_statuses.induct) simp_all

lemma attempt_items_probes:
  "attempt_items (concat (map (\<lambda>m. [SendChatAction TYPING, Head (media m) s]) xs)) = []"
  by (induction xs) simp_all

lemma head_statuses_probes:
  "head_statuses (concat (map (\<lambda>m. [SendChatAction TYPING, Head (media m) s]) xs))
     = replicate (length xs) s"
  by (induction xs) simp_all

lemma rejected_round_items: "attempt_items (rejected_round ms) = take 10 ms"
  by (simp add: rejected_round_def attempt_items_probes)

lemma rejected_round_statuses:
  "head_statuses (rejected_round ms) = replicate (length (take 10 ms)) 200"
  by (simp add: rejected_round_def head_statuses_probes)

lemma attempt_items_rounds:
  "attempt_items (concat (replicate k (rejected_round ms))) = concat (replicate k (take 10 ms))"
  by (induction k) (simp_all add: attempt_items_append rejected_round_items)

lemma head_statuses_rounds:
  "head_statuses (concat (replicate k (rejected_round ms)))
     = concat (replicate k (replicate (length (take 10 ms)) 200))"
  by (induction k) (simp_all add: head_statuses_append rejected_round_statuses)

text \<open>
  C4 fails on the code, where the loop never ends. Twelve items are pending, the chat
  rejects every media group and every probed URL answers 200. Each iteration probes the ten items
  of its batch, finds none of them bad and leaves all twelve pending, in the same order;
  so the next iteration sends the same ten again. Items 10 and 11 stay pending for ever
  and are in no send attempt, however many iterations have run, and the command never
  returns.
\<close>

theorem rejected_batch_rest_never_sent:
  "map ref (snd (build_media_list stuck12_env (example_posts 12) (0, [])))
     = [0, 1, 2, 3, 4, 5, 6, 7, 8, 9, 10, 11]
   \<and> search_danbooru stuck12_env [] [''cat'', ''limit=12''] = None
   \<and> (\<forall>k. map ref (media_list (iterations stuck12_env k
               \<lparr>media_list = snd (build_media_list stuck12_env (example_posts 12) (0, [])),
                errors = 0, trace = []\<rparr>))
             = [0, 1, 2, 3, 4, 5, 6, 7, 8, 9, 10, 11]
          \<and> errors (iterations stuck12_env k
               \<lparr>media_list = snd (build_media_list stuck12_env (example_posts 12) (0, [])),
                errors = 0, trace = []\<rparr>) = 0
          \<and> map ref (attempt_items (trace (iterations stuck12_env k
               \<lparr>media_list = snd (build_media_list stuck12_env (example_posts 12) (0, [])),
                errors = 0, trace = []\<rparr>)))
             = concat (replicate k [0, 1, 2, 3, 4, 5, 6, 7, 8, 9])
          \<and> head_statuses (trace (iterations stuck12_env k
               \<lparr>media_list = snd (build_media_list stuck12_env (example_posts 12) (0, [])),
                errors = 0, trace = []\<rparr>))
             = concat (replicate k (replicate 10 200)))"
proof -
  define ms where "ms = snd (build_media_list stuck12_env (example_posts 12) (0, []))"
  have refs: "map ref ms = [0, 1, 2, 3, 4, 5, 6, 7, 8, 9, 10, 11]"
    unfolding ms_def by code_simp
  have refs10: "map ref (take 10 ms) = [0, 1, 2, 3, 4, 5, 6, 7, 8, 9]"
    unfolding take_map [symmetric] refs by simp
  have "distinct (map ref ms)" unfolding refs by simp
  then have d: "distinct ms" by (rule distinct_map [THEN iffD1, THEN conjunct1])
  from refs have "length (map ref ms) = 12" by simp
  then have len: "length ms = 12" by simp
  then have l1: "length ms > 1" and l10: "length (take 10 ms) = 10" by simp_all
  have "fst (build_media_list stuck12_env (example_posts 12) (0, [])) = 0" by code_simp
  then have build: "build_media_list stuck12_env (example_posts 12) (0, []) = (0, ms)"
    unfolding ms_def by (metis prod.collapse)
  have it: "media_list (iterations stuck12_env k \<lparr>media_list = ms, errors = e, trace = tr\<rparr>) = ms
            \<and> errors (iterations stuck12_env k \<lparr>media_list = ms, errors = e, trace = tr\<rparr>) = e
            \<and> trace (iterations stuck12_env k \<lparr>media_list = ms, errors = e, trace = tr\<rparr>)
                = tr @ concat (replicate k (rejected_round ms))" for k e tr
    using stuck12_iterations [OF d l1, of "\<lparr>media_list = ms, errors = e, trace = tr\<rparr>" k] by simp
  have ne: "ms \<noteq> []" using len by auto
  have loop: "send_loop stuck12_env \<lparr>media_list = ms, errors = e, trace = tr\<rparr> = None" for e tr
    unfolding send_loop_None using it [of _ e tr] ne by simp
  have opts: "read_options \<lparr>limit = 5, page = 0, tags = None\<rparr> (join '' '' [''cat'', ''limit=12''])
                = Inr (''cat '', \<lparr>limit = 12, page = 0, tags = None\<rparr>)"
    by code_simp
  have terms: "filter_terms (split (CHR '','') ''cat '') = [''cat'']" by code_simp
  have posts: "post_list stuck12_env tr q = example_posts 12" for tr q
    by (simp add: stuck12_env_def)
  have pne: "example_posts 12 \<noteq> []" by code_simp
  have tne: "join '' '' [''cat'', ''limit=12''] \<noteq> []" by simp
  have s: "search_danbooru stuck12_env [] [''cat'', ''limit=12''] = None"
    unfolding search_danbooru_def Let_def post_list_send_media_group_def send_posts_def
    by (simp only: opts tne if_False sum.case prod.case terms posts pne build loop)
       (simp add: cap_limit_def posts pne build loop)
  have a: "map ref (attempt_items (tr @ concat (replicate k (rejected_round ms))))
             = map ref (attempt_items tr) @ concat (replicate k [0, 1, 2, 3, 4, 5, 6, 7, 8, 9])" for k tr
    by (simp add: attempt_items_append attempt_items_rounds map_concat refs10)
  have h: "head_statuses (tr @ concat (replicate k (rejected_round ms)))
             = head_statuses tr @ concat (replicate k (replicate 10 200))" for k tr
    using l10 by (simp add: head_statuses_append head_statuses_rounds)
  have "map ref (media_list (iterations stuck12_env k \<lparr>media_list = ms, errors = 0, trace = []\<rparr>))
             = [0, 1, 2, 3, 4, 5, 6, 7, 8, 9, 10, 11]
          \<and> errors (iterations stuck12_env k \<lparr>media_list = ms, errors = 0, trace = []\<rparr>) = 0
          \<and> map ref (attempt_items (trace (iterations stuck12_env k
               \<lparr>media_list = ms, errors = 0, trace = []\<rparr>)))
             = concat (replicate k [0, 1, 2, 3, 4, 5, 6, 7, 8, 9])
          \<and> head_statuses (trace (iterations stuck12_env k \<lparr>media_list = ms, errors = 0, trace = []\<rparr>))
             = concat (replicate k (replicate 10 200))" for k
    using it [of k 0 "[]"] a [of "[]" k] h [of "[]" k] refs by simp
  with refs s show ?thesis unfolding ms_def by blast
qed

lemma stuck_body:
  assumes "media_list st = [a, b]" and "a \<noteq> b"
  shows "media_list (loop_body stuck_env st) = [a, b]"
  using assms by (simp add: loop_body_def Let_def stuck_env_def set_difference_def)

lemma stuck_iterations:
  assumes "a \<noteq> b"
  shows "media_list st = [a, b] \<Longrightarrow> media_list (iterations stuck_env k st) = [a, b]"
proof (induction k arbitrary: st)
  case 0
  then show ?case by simp
next
  case (Suc k)
  from Suc.prems assms have "media_list (loop_body stuck_env st) = [a, b]" by (rule stuck_body)
  then have "media_list (iterations stuck_env k (loop_body stuck_env st)) = [a, b]"
    by (rule Suc.IH)
  with Suc.prems show ?case by simp
qed

text \<open>
  C1 fails on the code: a chat that rejects the media group while every probed URL
  answers 200 leaves the pending list as it was, and the loop runs again on the same
  list, for ever.
\<close>

theorem send_loop_never_ends:
  "send_loop stuck_env
     \<lparr>media_list = snd (build_media_list stuck_env (example_posts 2) (0, [])),
      errors = 0, trace = []\<rparr> = None
   \<and> search_danbooru stuck_env [] [''cat''] = None"
proof -
  define a :: InputMediaPhoto where
    "a = \<lparr>ref = 0, media = ''https://danbooru.donmai.us/0.jpg'',
           caption = ''https://danbooru.donmai.us/posts/0''\<rparr>"
  define b :: InputMediaPhoto where
    "b = \<lparr>ref = 1, media = ''https://danbooru.donmai.us/1.jpg'',
           caption = ''https://danbooru.donmai.us/posts/1''\<rparr>"
  have ab: "a \<noteq> b" by (simp add: a_def b_def)
  have build: "build_media_list stuck_env (example_posts 2) (0, []) = (0, [a, b])"
    unfolding a_def b_def by code_simp
  have loop: "send_loop stuck_env \<lparr>media_list = [a, b], errors = e, trace = tr\<rparr> = None" for e tr
    unfolding send_loop_None using stuck_iterations [OF ab] by simp
  have opts: "read_options \<lparr>limit = 5, page = 0, tags = None\<rparr> ''cat''
                = Inr (''cat'', \<lparr>limit = 5, page = 0, tags = None\<rparr>)"
    by code_simp
  have terms: "filter_terms (split (CHR '','') ''cat'') = [''cat'']" by code_simp
  have posts: "post_list stuck_env tr q = example_posts 2" for tr q
    by (simp add: stuck_env_def)
  have ne: "example_posts 2 \<noteq> []" by code_simp
  have "search_danbooru stuck_env [] [''cat''] = None"
    unfolding search_danbooru_def Let_def post_list_send_media_group_def send_posts_def
    by (simp add: opts terms posts ne build loop cap_limit_def)
  with build loop show ?thesis by simp
qed

text \<open>
  C2 fails on the code: after a rejected batch the pending list is rebuilt from a set,
  in the order of the set. Twelve items are built, the first batch of ten is rejected and
  its first item dropped; the set is then iterated from its last element, so item 11 is
  sent in the next group and item 10, collected before it, in the send after that.
\<close>

theorem send_order_lost:
  "map ref (snd (build_media_list reorder_env (example_posts 12) (0, [])))
     = [0, 1, 2, 3, 4, 5, 6, 7, 8, 9, 10, 11]
   \<and> map_option (map_sum id (\<lambda>tr. map ref (sent_items tr)))
        (search_danbooru reorder_env [] [''cat'', ''limit=12''])
     = Some (Inr [11, 1, 2, 3, 4, 5, 6, 7, 8, 9, 10])"
  by code_simp

section \<open>Properties of the query\<close>

lemma match_name_Some:
  assumes "match_name p s = Some r"
  shows "\<exists>nm. s = nm @ r \<and> length nm = length (items p)"
proof -
  from assms have l: "length (items p) \<le> length s" and r: "r = drop (length (items p)) s"
    by (auto simp: match_name_def split: if_splits)
  have "s = take (length (items p)) s @ r" by (simp add: r)
  moreover have "length (take (length (items p)) s) = length (items p)" using l by simp
  ultimately show ?thesis by blast
qed

lemma class_of_type_PyInt: "class_of_type PyInt = is_digit"
  by (rule ext) simp

lemma take_length_append: "take (length xs) (xs @ ys) = xs"
  by simp

lemma pattern_match_digit:
  assumes "pattern_match p PyInt s = Some n"
  shows "\<exists>c\<in>set (take n s). is_digit c"
proof -
  from assms obtain r where r: "match_name p s = Some r"
    by (auto simp: pattern_match_def split: option.splits)
  let ?seps = "takeWhile is_sep r"
  let ?vals = "takeWhile is_digit (dropWhile is_sep r)"
  from assms r have v: "?vals \<noteq> []" and n: "n = length (items p) + length ?seps + length ?vals"
    by (auto simp: pattern_match_def Let_def class_of_type_PyInt split: if_splits)
  from match_name_Some [OF r] obtain nm where nm: "s = nm @ r" "length nm = length (items p)"
    by blast
  have "r = ?seps @ ?vals @ dropWhile is_digit (dropWhile is_sep r)" by simp
  then have seq: "s = (nm @ ?seps @ ?vals) @ dropWhile is_digit (dropWhile is_sep r)"
    using nm(1) by simp
  have n': "n = length (nm @ ?seps @ ?vals)" using n nm(2) by simp
  have "take (length (nm @ ?seps @ ?vals))
          ((nm @ ?seps @ ?vals) @ dropWhile is_digit (dropWhile is_sep r)) = nm @ ?seps @ ?vals"
    by (rule take_length_append)
  then have t: "take n s = nm @ ?seps @ ?vals"
    by (simp only: seq [symmetric] n' [symmetric])
  from v have h: "hd ?vals \<in> set ?vals" by simp
  from set_takeWhileD [OF h] have d: "is_digit (hd ?vals)" by simp
  from h have "hd ?vals \<in> set (take n s)" unfolding t by simp
  with d show ?thesis by blast
qed

lemma findall_first_digit:
  "groups p = [] \<Longrightarrow> pattern_findall p PyInt s = m0 # ms
     \<Longrightarrow> \<exists>m. m0 = FoundStr m \<and> (\<exists>c\<in>set m. is_digit c)"
proof (induction p PyInt s rule: pattern_findall.induct)
  case (1 p)
  then show ?case by simp
next
  case (2 p c cs)
  show ?case
  proof (cases "pattern_match p PyInt (c # cs)")
    case None
    with 2 show ?thesis by simp
  next
    case (Some n)
    with 2(4) have "m0 = found_of p (take n (c # cs))" by simp
    with 2(3) have "m0 = FoundStr (take n (c # cs))" by (simp add: found_of_def)
    with pattern_match_digit [OF Some] show ?thesis by simp
  qed
qed

lemma foldl_digits_nonneg:
  "0 \<le> a \<Longrightarrow> 0 \<le> foldl (\<lambda>a c. 10 * a + int (cp c - 48)) a s"
  by (induction s arbitrary: a) simp_all

lemma py_int_nonneg: "0 \<le> py_int s"
  by (simp add: py_int_def foldl_digits_nonneg)

text \<open>
  With \<^verbatim>\<open>int\<close> and a name without a group the extractor never raises, and its value
  is no negative integer. The two names of the commands are such names.
\<close>

lemma extract_int_total:
  assumes "without_group name"
  shows "\<exists>t v. extract_option_from_string name text (Some PyInt) = Inr (t, v)
         \<and> (v = None \<or> (\<exists>n\<ge>0. v = Some (IntValue n)))
         \<and> (findall name PyInt text = [] \<longrightarrow> v = None \<and> t = text)"
proof -
  from assms obtain p where p: "parse_name name = Parsed p" and g: "groups p = []"
    by (auto simp: without_group_def split: parsed.splits)
  have t: "type_or_str (Some PyInt) = PyInt" by (simp add: type_or_str_def)
  show ?thesis
  proof (cases "pattern_findall p PyInt text")
    case Nil
    then show ?thesis
      by (simp add: extract_option_from_string_def p t findall_def)
  next
    case (Cons m0 ms)
    from findall_first_digit [OF g Cons] obtain m where
      m: "m0 = FoundStr m" "\<exists>c\<in>set m. is_digit c" by blast
    then obtain out rest where "digit_runs m = out # rest"
      using digit_runs_Nil_iff [of m] by (cases "digit_runs m") auto
    with Cons m(1) have "extract_option_from_string name text (Some PyInt)
                      = Inr (pattern_sub p PyInt text, Some (IntValue (py_int out)))"
      by (simp add: extract_option_from_string_def p t)
    with Cons show ?thesis using py_int_nonneg [of out] by (auto simp: findall_def p)
  qed
qed

lemma without_group_page: "without_group ''page''"
  by (simp add: without_group_def parse_name_def is_meta_def)

lemma without_group_limit: "without_group ''limit''"
  by (simp add: without_group_def parse_name_def is_meta_def)

lemma read_options_result:
  "\<exists>t q'. read_options q text = Inr (t, q')
          \<and> page q' = (case page_option text of None \<Rightarrow> page q
                        | Some n \<Rightarrow> if n = 0 then page q else n)
          \<and> limit q' = (case limit_option text of None \<Rightarrow> limit q
                         | Some n \<Rightarrow> if n = 0 then limit q else n)
          \<and> tags q' = tags q
          \<and> (findall ''page'' PyInt text = [] \<longrightarrow> page_option text = None)"
proof -
  from extract_int_total [OF without_group_page, of "text"] obtain t1 pv where
    p: "extract_option_from_string ''page'' text (Some PyInt) = Inr (t1, pv)"
       "pv = None \<or> (\<exists>n\<ge>0. pv = Some (IntValue n))"
       "findall ''page'' PyInt text = [] \<longrightarrow> pv = None \<and> t1 = text"
    by blast
  from extract_int_total [OF without_group_limit, of t1] obtain t2 lv where
    l: "extract_option_from_string ''limit'' t1 (Some PyInt) = Inr (t2, lv)"
       "lv = None \<or> (\<exists>n\<ge>0. lv = Some (IntValue n))"
    by blast
  let ?q1 = "if value_truthy pv then q\<lparr>page := int_of_value pv\<rparr> else q"
  let ?q2 = "if value_truthy lv then ?q1\<lparr>limit := int_of_value lv\<rparr> else ?q1"
  have r: "read_options q text = Inr (t2, ?q2)"
    by (simp add: read_options_def p(1) l(1) Let_def)
  have po: "page_option text = (case pv of Some (IntValue n) \<Rightarrow> Some n | _ \<Rightarrow> None)"
    using p(2) by (auto simp: page_option_def p(1))
  have lo: "limit_option text = (case lv of Some (IntValue n) \<Rightarrow> Some n | _ \<Rightarrow> None)"
    using l(2) by (auto simp: limit_option_def p(1) l(1))
  have "page ?q2 = (case page_option text of None \<Rightarrow> page q | Some n \<Rightarrow> if n = 0 then page q else n)"
    using p(2) by (auto simp: po value_truthy_def int_of_value_def)
  moreover have "limit ?q2 = (case limit_option text of None \<Rightarrow> limit q
                              | Some n \<Rightarrow> if n = 0 then limit q else n)"
    using l(2) by (auto simp: lo value_truthy_def int_of_value_def)
  moreover have "tags ?q2 = tags q" by simp
  moreover have "findall ''page'' PyInt text = [] \<longrightarrow> page_option text = None"
    using p(3) by (auto simp: po)
  ultimately show ?thesis using r by blast
qed

text \<open>
  C9. Both commands hand the board a query whose limit is at most 100: it is 100 when
  the limit option of the text is above 100, the option's value when that is between 1
  and 100, and 5 when there is no limit option; and the page of the query is the value of
  the page option, and 0 when the text has no page option. The board is asked before
  anything is sent.
\<close>

theorem query_limit_and_page:
  assumes "join '' '' args \<noteq> []"
  shows "\<exists>tr1 q.
           search_danbooru env tr args
             = map_option Inr (send_posts env (tr1 @ [PostList q]) q (post_list env tr1 q))
         \<and> limit q \<le> 100
         \<and> (\<forall>n. limit_option (join '' '' args) = Some n \<and> 100 < n \<longrightarrow> limit q = 100)
         \<and> (\<forall>n. limit_option (join '' '' args) = Some n \<and> 0 < n \<and> n \<le> 100 \<longrightarrow> limit q = n)
         \<and> (limit_option (join '' '' args) = None \<longrightarrow> limit q = 5)
         \<and> (findall ''page'' PyInt (join '' '' args) = [] \<longrightarrow> page q = 0)
         \<and> (\<forall>n. page_option (join '' '' args) = Some n \<longrightarrow> page q = n)"
proof -
  let ?text = "join '' '' args"
  let ?q0 = "\<lparr>limit = 5, page = 0, tags = None\<rparr>"
  let ?tr0 = "tr @ [SendChatAction TYPING]"
  from read_options_result [of ?q0 ?text] obtain t q' where
    r: "read_options ?q0 ?text = Inr (t, q')"
    and pg0: "page q' = (case page_option ?text of None \<Rightarrow> page ?q0
                         | Some n \<Rightarrow> if n = 0 then page ?q0 else n)"
    and lm0: "limit q' = (case limit_option ?text of None \<Rightarrow> limit ?q0
                          | Some n \<Rightarrow> if n = 0 then limit ?q0 else n)"
    and np: "findall ''page'' PyInt ?text = [] \<longrightarrow> page_option ?text = None"
    by blast
  from pg0 have pg: "page q' = (case page_option ?text of None \<Rightarrow> 0
                                | Some n \<Rightarrow> if n = 0 then 0 else n)"
    by (cases "page_option ?text") simp_all
  from lm0 have lm: "limit q' = (case limit_option ?text of None \<Rightarrow> 5
                                 | Some n \<Rightarrow> if n = 0 then 5 else n)"
    by (cases "limit_option ?text") simp_all
  let ?terms = "filter_terms (split (CHR '','') t)"
  let ?q1 = "q'\<lparr>tags := Some (join '' '' (take 2 ?terms))\<rparr>"
  let ?tr1 = "if length ?terms > 2
              then ?tr0 @ [Reply (''Only 2 tags per search supported, searching for ''
                                  @ format_str (tags ?q1))]
              else ?tr0"
  let ?q = "cap_limit ?q1"
  have s: "search_danbooru env tr args
             = map_option Inr (send_posts env (?tr1 @ [PostList ?q]) ?q (post_list env ?tr1 ?q))"
    using assms unfolding search_danbooru_def post_list_send_media_group_def Let_def
    by (simp add: r)
  have l: "limit ?q = min (limit q') 100" and p: "page ?q = page q'"
    by (simp_all add: cap_limit_def)
  show ?thesis
  proof (intro exI [of _ ?tr1] exI [of _ ?q] conjI)
    show "search_danbooru env tr args
            = map_option Inr (send_posts env (?tr1 @ [PostList ?q]) ?q (post_list env ?tr1 ?q))"
      by (rule s)
    show "limit ?q \<le> 100" using l by simp
    show "\<forall>n. limit_option ?text = Some n \<and> 100 < n \<longrightarrow> limit ?q = 100"
      using l lm by auto
    show "\<forall>n. limit_option ?text = Some n \<and> 0 < n \<and> n \<le> 100 \<longrightarrow> limit ?q = n"
      using l lm by auto
    show "limit_option ?text = None \<longrightarrow> limit ?q = 5"
      using l lm by auto
    show "findall ''page'' PyInt ?text = [] \<longrightarrow> page ?q = 0"
      using p pg np by auto
    show "\<forall>n. page_option ?text = Some n \<longrightarrow> page ?q = n"
      using p pg by auto
  qed
qed

theorem query_limit_and_page_witness:
  "join '' '' [''cat,dog'', ''limit=150''] \<noteq> []
   \<and> limit_option (join '' '' [''cat,dog'', ''limit=150'']) = Some 150
   \<and> findall ''page'' PyInt (join '' '' [''cat,dog'', ''limit=150'']) = []
   \<and> (\<exists>tr1 q. search_danbooru empty_env [] [''cat,dog'', ''limit=150'']
                 = map_option Inr (send_posts empty_env (tr1 @ [PostList q]) q
                                     (post_list empty_env tr1 q))
              \<and> limit q = 100 \<and> page q = 0)"
proof -
  define args where "args = [''cat,dog'', ''limit=150'']"
  have 1: "join '' '' args \<noteq> []" unfolding args_def by simp
  have 2: "limit_option (join '' '' args) = Some 150" unfolding args_def by code_simp
  have 3: "findall ''page'' PyInt (join '' '' args) = []" unfolding args_def by code_simp
  from query_limit_and_page [OF 1, of empty_env "[]"] obtain tr1 q where
    a: "search_danbooru empty_env [] args
          = map_option Inr (send_posts empty_env (tr1 @ [PostList q]) q
                              (post_list empty_env tr1 q))"
    and b: "\<forall>n. limit_option (join '' '' args) = Some n \<and> 100 < n \<longrightarrow> limit q = 100"
    and c: "findall ''page'' PyInt (join '' '' args) = [] \<longrightarrow> page q = 0"
    by blast
  from b [rule_format, of 150] 2 have "limit q = 100" by simp
  moreover from c 3 have "page q = 0" by simp
  ultimately have "\<exists>tr1 q. search_danbooru empty_env [] args
                 = map_option Inr (send_posts empty_env (tr1 @ [PostList q]) q
                                     (post_list empty_env tr1 q))
              \<and> limit q = 100 \<and> page q = 0"
    using a by blast
  with 1 2 3 show ?thesis unfolding args_def by (intro conjI)
qed

end
